(* ===== verification/Prelude.thy ===== *)
theory Prelude
  imports Complex_Main "HOL-Library.Stream" "HOL-Library.AList"
begin

text \<open>
  Shared vocabulary of the woodlouse development (\<open>src/woodlouse.js\<close>).

  \<^item> Element identities: pages and lice are JavaScript objects compared by identity;
    they are modelled as natural numbers (\<open>page\<close>, \<open>lid\<close>).
  \<^item> JavaScript numbers are modelled as \<open>real\<close> (no rounding, no NaN); the spec
    itself states its speed property "within floating-point tolerance".
  \<^item> \<open>Math.random()\<close> is the head of an explicit stream of draws, each in \<open>[0, 1)\<close>
    (\<open>js_random\<close>); every operation that draws threads the stream.
  \<^item> The helpers \<open>rnd\<close>, \<open>clamp\<close> (lines 37--38), \<open>Math.hypot\<close>, \<open>Math.atan2\<close>
    and the numeric \<open>a || b\<close> are defined here, with the lemmas that the
    component proofs share: bounds of \<open>clamp\<close> and \<open>rnd\<close>, the triangle inequality
    and scaling law of \<open>hypot\<close>, and the polar decomposition
    \<open>hypot x y * cos (atan2 y x) = x\<close>, \<open>hypot x y * sin (atan2 y x) = y\<close>.
\<close>

named_theorems js_simps "evaluation rules of the JavaScript helpers on concrete values"
named_theorems geom "facts of plane geometry used by the steering proofs"

type_synonym page = nat
type_synonym lid = nat
type_synonym draws = "real stream"

section \<open>JavaScript helpers\<close>

text \<open>\<open>a || b\<close> on numbers: \<open>a\<close> unless it is falsy (\<open>0\<close>).\<close>

definition js_or :: "real \<Rightarrow> real \<Rightarrow> real" where
  "js_or a b = (if a \<noteq> 0 then a else b)"

text \<open>\<open>const clamp=(v,a,b)=>Math.max(a,Math.min(b,v))\<close>\<close>

definition clamp :: "real \<Rightarrow> real \<Rightarrow> real \<Rightarrow> real" where
  "clamp v a b = max a (min b v)"

text \<open>\<open>const rnd=(a,b)=>a+Math.random()*(b-a)\<close>, with the draw \<open>r\<close> made explicit.\<close>

definition rnd :: "real \<Rightarrow> real \<Rightarrow> real \<Rightarrow> real" where
  "rnd a b r = a + r * (b - a)"

text \<open>\<open>Math.random()\<close>: the next draw of the stream, and the rest of the stream.\<close>

definition js_random :: "draws \<Rightarrow> real \<times> draws" where
  "js_random rs = (shd rs, stl rs)"

definition valid_draws :: "draws \<Rightarrow> bool" where
  "valid_draws rs \<longleftrightarrow> (\<forall>r \<in> sset rs. 0 \<le> r \<and> r < 1)"

definition hypot :: "real \<Rightarrow> real \<Rightarrow> real" where
  "hypot x y = sqrt (x\<^sup>2 + y\<^sup>2)"

text \<open>\<open>Math.atan2(y, x)\<close> on reals (signed zeros are not modelled: \<open>atan2 0 0 = 0\<close>).\<close>

definition atan2 :: "real \<Rightarrow> real \<Rightarrow> real" where
  "atan2 y x =
     (if 0 < x then arctan (y / x)
      else if x < 0 then (if 0 \<le> y then arctan (y / x) + pi else arctan (y / x) - pi)
      else if 0 < y then pi / 2
      else if y < 0 then - (pi / 2)
      else 0)"

section \<open>Lemmas on the helpers\<close>

lemma js_or_nonzero [simp]: "a \<noteq> 0 \<Longrightarrow> js_or a b = a"
  by (simp add: js_or_def)

lemma js_or_zero [simp]: "js_or 0 b = b"
  by (simp add: js_or_def)

lemma clamp_lower: "a \<le> b \<Longrightarrow> a \<le> clamp v a b"
  by (simp add: clamp_def)

lemma clamp_upper: "a \<le> b \<Longrightarrow> clamp v a b \<le> b"
  by (simp add: clamp_def)

lemma clamp_id [simp]: "a \<le> v \<Longrightarrow> v \<le> b \<Longrightarrow> clamp v a b = v"
  by (simp add: clamp_def)

lemma clamp_eq_iff: "a \<le> b \<Longrightarrow> clamp v a b = v \<longleftrightarrow> a \<le> v \<and> v \<le> b"
  by (auto simp: clamp_def)

lemma rnd_lower: "0 \<le> r \<Longrightarrow> a \<le> b \<Longrightarrow> a \<le> rnd a b r"
  by (simp add: rnd_def)

lemma rnd_upper: "r < 1 \<Longrightarrow> a < b \<Longrightarrow> rnd a b r < b"
proof -
  assume "r < 1" "a < b"
  then have "r * (b - a) < 1 * (b - a)" by (intro mult_strict_right_mono) auto
  then show ?thesis by (simp add: rnd_def)
qed

lemma rnd_upper_le: "r \<le> 1 \<Longrightarrow> a \<le> b \<Longrightarrow> rnd a b r \<le> b"
proof -
  assume "r \<le> 1" "a \<le> b"
  then have "r * (b - a) \<le> 1 * (b - a)" by (intro mult_right_mono) auto
  then show ?thesis by (simp add: rnd_def)
qed

lemma valid_draws_stl [intro]: "valid_draws rs \<Longrightarrow> valid_draws (stl rs)"
  by (auto simp: valid_draws_def stl_sset)

lemma valid_draws_shd: "valid_draws rs \<Longrightarrow> 0 \<le> shd rs \<and> shd rs < 1"
  by (simp add: valid_draws_def shd_sset)

lemma valid_draws_sdrop [intro]: "valid_draws rs \<Longrightarrow> valid_draws (sdrop n rs)"
  by (induction n arbitrary: rs) auto

lemma valid_draws_sconst: "0 \<le> r \<Longrightarrow> r < 1 \<Longrightarrow> valid_draws (sconst r)"
  by (simp add: valid_draws_def)

lemma js_random_valid:
  "valid_draws rs \<Longrightarrow> js_random rs = (r, rs') \<Longrightarrow> 0 \<le> r \<and> r < 1 \<and> valid_draws rs'"
  by (auto simp: js_random_def valid_draws_shd)

lemma js_random_Cons [simp, js_simps]: "js_random (r ## rs) = (r, rs)"
  by (simp add: js_random_def)

subsection \<open>Association lists\<close>

text \<open>\<open>Map.prototype.set\<close> on the association list: the entries afterwards.\<close>

lemma set_update_subset: "set (AList.update k v al) \<subseteq> insert (k, v) (set al)"
  by (induction al) auto

lemma in_set_update: "p \<in> set (AList.update k v al) \<Longrightarrow> p = (k, v) \<or> p \<in> set al"
  using set_update_subset by fastforce

lemma in_set_update_key:
  "distinct (map fst al) \<Longrightarrow> (k, x) \<in> set (AList.update k v al) \<Longrightarrow> x = v"
proof -
  assume d: "distinct (map fst al)" and p: "(k, x) \<in> set (AList.update k v al)"
  have "map_of (AList.update k v al) k = Some x"
    using distinct_update [OF d] p by (rule map_of_is_SomeI)
  then show "x = v" by (simp add: update_conv')
qed

text \<open>Updates of two keys commute when one of them is already present (otherwise the
  order of the appended entries differs).\<close>

lemma update_swap_present:
  "k \<noteq> k' \<Longrightarrow> k' \<in> fst ` set al \<Longrightarrow>
     AList.update k v (AList.update k' v' al) = AList.update k' v' (AList.update k v al)"
proof (induction al)
  case Nil
  then show ?case by simp
next
  case (Cons p al)
  obtain x y where p: "p = (x, y)" by (cases p)
  show ?case
  proof (cases "x = k'")
    case True
    with Cons.prems p show ?thesis by simp
  next
    case False
    with Cons p show ?thesis by auto
  qed
qed

lemma in_set_update_other:
  "(k', x) \<in> set (AList.update k v al) \<Longrightarrow> k' \<noteq> k \<Longrightarrow> (k', x) \<in> set al"
  using in_set_update by fastforce

subsection \<open>Related lists\<close>

lemma list_all2_in_set2: "list_all2 P xs ys \<Longrightarrow> y \<in> set ys \<Longrightarrow> \<exists>x \<in> set xs. P x y"
  by (induction rule: list_all2_induct) auto

lemma list_all2_map_eq:
  "list_all2 P xs ys \<Longrightarrow> (\<And>x y. P x y \<Longrightarrow> f y = g x) \<Longrightarrow> map f ys = map g xs"
  by (induction rule: list_all2_induct) auto

subsection \<open>hypot\<close>

lemma hypot_x_0 [simp, js_simps]: "hypot x 0 = \<bar>x\<bar>"
  by (simp add: hypot_def)

lemma hypot_0_y [simp, js_simps]: "hypot 0 y = \<bar>y\<bar>"
  by (simp add: hypot_def)


lemma hypot_nonneg [simp, geom]: "0 \<le> hypot x y"
  by (simp add: hypot_def)

lemma hypot_zero_iff [geom]: "hypot x y = 0 \<longleftrightarrow> x = 0 \<and> y = 0"
  by (simp add: hypot_def)

lemma hypot_as_cmod: "hypot x y = cmod (Complex x y)"
  by (simp add: hypot_def cmod_def)

lemma hypot_triangle [geom]: "hypot (a + c) (b + d) \<le> hypot a b + hypot c d"
proof -
  have "Complex (a + c) (b + d) = Complex a b + Complex c d"
    by (simp add: complex_eq_iff)
  then show ?thesis
    using norm_triangle_ineq [of "Complex a b" "Complex c d"] by (simp add: hypot_as_cmod)
qed

lemma hypot_reverse_triangle [geom]: "hypot a b - hypot c d \<le> hypot (a + c) (b + d)"
proof -
  have "Complex (a + c) (b + d) = Complex a b + Complex c d"
    by (simp add: complex_eq_iff)
  then show ?thesis
    using norm_diff_ineq [of "Complex a b" "Complex c d"] by (simp add: hypot_as_cmod)
qed

lemma hypot_scale [geom]: "hypot (x * k) (y * k) = \<bar>k\<bar> * hypot x y"
proof -
  have "(x * k)\<^sup>2 + (y * k)\<^sup>2 = k\<^sup>2 * (x\<^sup>2 + y\<^sup>2)"
    by (simp add: algebra_simps power2_eq_square)
  then show ?thesis by (simp add: hypot_def real_sqrt_mult)
qed

lemma hypot_abs_x [geom]: "\<bar>x\<bar> \<le> hypot x y"
  by (simp add: hypot_def real_sqrt_ge_abs1)

lemma hypot_abs_y [geom]: "\<bar>y\<bar> \<le> hypot x y"
  by (metis hypot_def add.commute real_sqrt_ge_abs1)

lemma hypot_cos_sin [geom]: "hypot (cos a * k) (sin a * k) = \<bar>k\<bar>"
  using hypot_scale [where x = "cos a" and y = "sin a" and k = k] by (simp add: hypot_def)

subsection \<open>atan2\<close>

lemma one_plus_square_ne: "1 + (t::real)\<^sup>2 \<noteq> 0"
  by (metis add_pos_nonneg zero_le_power2 zero_less_one less_irrefl)

lemma hypot_off_x:
  assumes "x \<noteq> 0"
  shows "hypot x y = \<bar>x\<bar> * sqrt (1 + (y / x)\<^sup>2)"
proof -
  have "x\<^sup>2 + y\<^sup>2 = x\<^sup>2 * (1 + (y / x)\<^sup>2)"
    using assms by (simp add: field_simps power2_eq_square)
  then show ?thesis by (simp add: hypot_def real_sqrt_mult)
qed

lemma hypot_cos_atan2 [geom]: "hypot x y * cos (atan2 y x) = x"
proof -
  note ne = one_plus_square_ne [of "y / x"]
  consider "0 < x" | "x < 0" | "x = 0" by linarith
  then show ?thesis
  proof cases
    case 1
    then show ?thesis by (simp add: atan2_def hypot_off_x cos_arctan ne)
  next
    case 2
    then have "cos (atan2 y x) = - cos (arctan (y / x))"
      by (simp add: atan2_def)
    with 2 show ?thesis by (simp add: hypot_off_x cos_arctan ne)
  next
    case 3
    then show ?thesis by (simp add: atan2_def)
  qed
qed

lemma hypot_sin_atan2 [geom]: "hypot x y * sin (atan2 y x) = y"
proof -
  note ne = one_plus_square_ne [of "y / x"]
  consider "0 < x" | "x < 0" | "x = 0" "0 < y" | "x = 0" "y < 0" | "x = 0" "y = 0"
    by linarith
  then show ?thesis
  proof cases
    case 1
    then show ?thesis by (simp add: atan2_def hypot_off_x sin_arctan ne)
  next
    case 2
    then have "sin (atan2 y x) = - sin (arctan (y / x))"
      by (simp add: atan2_def)
    with 2 show ?thesis by (simp add: hypot_off_x sin_arctan ne)
  next
    case 3
    then show ?thesis by (simp add: atan2_def hypot_def)
  next
    case 4
    then show ?thesis by (simp add: atan2_def hypot_def)
  next
    case 5
    then show ?thesis by (simp add: atan2_def)
  qed
qed

text \<open>
  The unit vector \<open>(cos (atan2 dy dx), sin (atan2 dy dx))\<close> points along
  \<open>(dx, dy)\<close>: scaled by \<open>k\<close>, it is \<open>(dx, dy)\<close> scaled by \<open>k / hypot dx dy\<close>.
\<close>

lemma cos_atan2_scaled [geom]:
  "hypot dx dy \<noteq> 0 \<Longrightarrow> cos (atan2 dy dx) * k = dx * (k / hypot dx dy)"
  by (metis hypot_cos_atan2 nonzero_mult_div_cancel_left times_divide_eq_right mult.commute)

lemma sin_atan2_scaled [geom]:
  "hypot dx dy \<noteq> 0 \<Longrightarrow> sin (atan2 dy dx) * k = dy * (k / hypot dx dy)"
  by (metis hypot_sin_atan2 nonzero_mult_div_cancel_left times_divide_eq_right mult.commute)

lemma atan2_0_pos [simp, js_simps]: "0 < x \<Longrightarrow> atan2 0 x = 0"
  by (simp add: atan2_def)

end
