(* ===== verification/Config.thy ===== *)
theory Config
  imports Prelude
begin

text \<open>
  The configuration object \<open>CFG\<close> of \<open>src/woodlouse.js\<close> (lines 5--29) as a record
  and its one value. \<open>size\<close> is renamed \<open>cfg_size\<close> (it clashes with HOL's
  \<open>size\<close>). The field values are collected in \<open>CFG_fields\<close>, the simp set that
  turns every use of \<open>CFG\<close> in the component theories into a number.
\<close>

record config =
  burstEveryMs :: real
  burstSize :: nat
  activeMaxPerSurface :: nat
  cfg_size :: real
  imgs :: "string list"
  frameMs :: real
  speedMin :: real
  speedMax :: real
  baseSpeed :: "real \<times> real"
  accelMax :: real
  inertia :: real
  wanderStrength :: real
  wanderTurnRate :: real
  wanderJitter :: real
  pathBias :: real
  edgePad :: real
  scatterBoost :: real

definition CFG :: config where
  "CFG = \<lparr>
     burstEveryMs = 15000,
     burstSize = 2,
     activeMaxPerSurface = 2,
     cfg_size = 46,
     imgs = [''craw-2.png'', ''craw-3.png''],
     frameMs = 90,
     speedMin = 300, speedMax = 420,
     baseSpeed = (300, 420),
     accelMax = 800,
     inertia = 0.88,
     wanderStrength = 120,
     wanderTurnRate = 2.0,
     wanderJitter = 0.7,
     pathBias = 1.8,
     edgePad = 6,
     scatterBoost = 1.6 \<rparr>"

lemma CFG_fields [simp, js_simps]:
  "burstEveryMs CFG = 15000" "burstSize CFG = 2" "activeMaxPerSurface CFG = 2"
  "cfg_size CFG = 46" "imgs CFG = [''craw-2.png'', ''craw-3.png'']" "frameMs CFG = 90"
  "speedMin CFG = 300" "speedMax CFG = 420" "baseSpeed CFG = (300, 420)"
  "accelMax CFG = 800" "inertia CFG = 0.88" "wanderStrength CFG = 120"
  "wanderTurnRate CFG = 2.0" "wanderJitter CFG = 0.7" "pathBias CFG = 1.8"
  "edgePad CFG = 6" "scatterBoost CFG = 1.6"
  by (simp_all add: CFG_def)

end
