(* ===== verification/Visibility.thy ===== *)
theory Visibility
  imports Config
begin

text \<open>
  The Visibility Tracker (\<open>rectHasSize\<close>, \<open>getVisiblePages\<close>, lines 48--64) and
  the view of the host page that every component reads.

  A \<open>view\<close> is one snapshot of what the DOM and the viewport report: the
  \<open>.flipbook .page\<close> elements in document order, the bounding box of each page
  and of its overlay layer, the layer's offset size, the viewport height, whether
  jQuery/Turn.js is present and whether the reduced-motion preference is set.
  Everything external to the script is read through it.

  \<open>getVisiblePages\<close> filters, sorts by decreasing area and keeps two; the lemmas
  show that it returns at most two visible pages of the document, the largest
  ones (no visible page that is left out is larger than one returned), as many as
  qualify up to two, in decreasing order of area.
\<close>

record rect =
  r_width :: real
  r_height :: real
  r_top :: real
  r_bottom :: real

record view =
  v_pages :: "page list"
  v_rect :: "page \<Rightarrow> rect"
  v_innerHeight :: real
  v_layer_rect :: "page \<Rightarrow> rect"
  v_layer_offset :: "page \<Rightarrow> real \<times> real"
  v_jquery :: bool
  v_reduced_motion :: bool

definition rectHasSize :: "rect \<Rightarrow> bool" where
  "rectHasSize r \<longleftrightarrow> 20 < r_width r \<and> 20 < r_height r"

definition area :: "rect \<Rightarrow> real" where
  "area r = r_width r * r_height r"

text \<open>The filter of line 52--55.\<close>

definition page_visible :: "view \<Rightarrow> page \<Rightarrow> bool" where
  "page_visible v el \<longleftrightarrow>
     (let r = v_rect v el in rectHasSize r \<and> 0 < r_bottom r \<and> r_top r < v_innerHeight v)"

text \<open>
  The comparator \<open>(a,b) => area b - area a\<close> orders by decreasing area, and
  \<open>Array.prototype.sort\<close> is stable; \<open>sort_key\<close> with the negated area is the
  same stable sort.
\<close>

definition getVisiblePages :: "view \<Rightarrow> page list" where
  "getVisiblePages v =
     take 2 (sort_key (\<lambda>el. - area (v_rect v el)) (filter (page_visible v) (v_pages v)))"

section \<open>Properties\<close>

lemma getVisiblePages_length: "length (getVisiblePages v) \<le> 2"
  by (simp add: getVisiblePages_def)

lemma getVisiblePages_sound:
  "el \<in> set (getVisiblePages v) \<Longrightarrow> el \<in> set (v_pages v) \<and> page_visible v el"
  by (auto simp: getVisiblePages_def dest: in_set_takeD)

lemma getVisiblePages_distinct:
  "distinct (v_pages v) \<Longrightarrow> distinct (getVisiblePages v)"
  by (simp add: getVisiblePages_def)

lemma getVisiblePages_count:
  "length (getVisiblePages v) = min 2 (length (filter (page_visible v) (v_pages v)))"
  by (simp add: getVisiblePages_def)

lemma getVisiblePages_empty_iff:
  "getVisiblePages v = [] \<longleftrightarrow> (\<forall>el \<in> set (v_pages v). \<not> page_visible v el)"
proof -
  have "getVisiblePages v = [] \<longleftrightarrow> filter (page_visible v) (v_pages v) = []"
    using getVisiblePages_count [of v] by (cases "filter (page_visible v) (v_pages v)") auto
  then show ?thesis by (simp add: filter_empty_conv)
qed

lemma getVisiblePages_sorted:
  "sorted (map (\<lambda>el. - area (v_rect v el)) (getVisiblePages v))"
    unfolding getVisiblePages_def take_map [symmetric]
  by (metis sorted_map sorted_sort_key sorted_wrt_take)

text \<open>
  C7: the tracker returns the largest visible pages: a page that qualifies and is left
  out is no larger than any page returned.
\<close>

lemma getVisiblePages_largest:
  assumes "el' \<in> set (v_pages v)" "page_visible v el'" "el' \<notin> set (getVisiblePages v)"
    and "el \<in> set (getVisiblePages v)"
  shows "area (v_rect v el') \<le> area (v_rect v el)"
proof -
  let ?f = "\<lambda>el. - area (v_rect v el)"
  let ?s = "sort_key ?f (filter (page_visible v) (v_pages v))"
  have s: "sorted (map ?f (take 2 ?s @ drop 2 ?s))"
    by simp
  from assms(1,2) have "el' \<in> set ?s" by simp
  with assms(3) have "el' \<in> set (drop 2 ?s)"
    by (metis Un_iff append_take_drop_id set_append getVisiblePages_def)
  moreover from assms(4) have "el \<in> set (take 2 ?s)"
    by (simp add: getVisiblePages_def)
  ultimately have "?f el \<le> ?f el'"
    using s by (auto simp: sorted_append simp del: append_take_drop_id)
  then show ?thesis by simp
qed

theorem getVisiblePages_largest_witness:
  "let R = (\<lambda>w h. \<lparr>r_width = w, r_height = h, r_top = 0, r_bottom = h\<rparr>);
       V = \<lparr>v_pages = [0, 2, 3], v_rect = (\<lambda>p. if p = 0 then R 100 100 else if p = 2 then R 400 300 else R 300 300),
            v_innerHeight = 800, v_layer_rect = (\<lambda>_. R 400 300), v_layer_offset = (\<lambda>_. (400, 300)),
            v_jquery = True, v_reduced_motion = False\<rparr>
   in 0 \<in> set (v_pages V) \<and> page_visible V 0 \<and> 0 \<notin> set (getVisiblePages V) \<and>
      2 \<in> set (getVisiblePages V) \<and> area (v_rect V 0) \<le> area (v_rect V 2)"
proof -
  let ?R = "\<lambda>w h. \<lparr>r_width = w, r_height = h, r_top = 0, r_bottom = h\<rparr>"
  let ?V = "\<lparr>v_pages = [0, 2, 3], v_rect = (\<lambda>p. if p = 0 then ?R 100 100 else if p = 2 then ?R 400 300 else ?R 300 300),
            v_innerHeight = 800, v_layer_rect = (\<lambda>_. ?R 400 300), v_layer_offset = (\<lambda>_. (400, 300)),
            v_jquery = True, v_reduced_motion = False\<rparr>"
  have g: "getVisiblePages ?V = [2, 3]"
    by (simp add: getVisiblePages_def page_visible_def rectHasSize_def area_def)
  have m: "(0::nat) \<in> set (v_pages ?V)" by simp
  have p: "page_visible ?V 0" by (simp add: page_visible_def rectHasSize_def)
  have n: "0 \<notin> set (getVisiblePages ?V)" by (simp add: g)
  have i: "2 \<in> set (getVisiblePages ?V)" by (simp add: g)
  from getVisiblePages_largest [OF m p n i] m p n i show ?thesis by (simp add: Let_def)
qed

end
