(* ===== verification/Model.thy ===== *)
theory Model
  imports Visibility
begin

text \<open>
  The data model of \<open>src/woodlouse.js\<close>: the closure state of the IIFE
  (lines 31--34), the louse objects created by \<open>makeLouse\<close> (lines 97--110) and the
  overlay layers created by \<open>ensureLayersOnVisiblePages\<close> (lines 73--82).

  \<^item> \<open>surfaces\<close>, a JavaScript \<open>Map\<close> from page element to \<open>{layer, lice}\<close>, is an
    association list in insertion order (\<open>Map.prototype.set\<close> of a new key appends,
    \<open>AList.update\<close> does the same); each \<open>lice\<close> \<open>Set\<close> is a list in insertion order.
  \<^item> A louse keeps its identity (\<open>lid\<close>, from a counter \<open>next_lid\<close> of the state),
    its surface (\<open>home\<close>, the page whose \<open>surfaceInfo\<close> it holds) and the fields of
    its sprite element that the code writes: class list, size, background image and
    transform. The fields \<open>x, y, vx, vy, exit.x, exit.y\<close> are \<open>lx, ly, lvx, lvy,
    exit_x, exit_y\<close>.
  \<^item> A layer records its parent element and the inline styles the code sets.
  \<^item> Timers (\<open>setTimeout\<close>, \<open>setInterval\<close>, \<open>requestAnimationFrame\<close>) are entries of
    \<open>tasks\<close>, each with the id the host returns; event listeners are \<open>listeners\<close>.
  \<^item> \<open>rng\<close> is the stream of \<open>Math.random()\<close> draws still to come.
\<close>

record louse =
  lid :: lid
  home :: page
  el_className :: "string list"
  el_size :: real
  el_bg :: string
  el_transform :: "(real \<times> real \<times> real) option"
  lx :: real
  ly :: real
  lvx :: real
  lvy :: real
  frame :: nat
  alive :: bool
  wanderAngle :: real
  exit_x :: real
  exit_y :: real

record layer =
  layer_parent :: "page option"
  layer_className :: string
  st_position :: string
  st_inset :: string
  st_pointerEvents :: string
  st_overflow :: string
  st_zIndex :: string

record surface_info =
  layer :: layer
  lice :: "louse list"

text \<open>Scheduled callbacks of the host's timers and frame queue.\<close>

datatype task =
    Start_Resume \<comment> \<open>the continuation of \<open>start()\<close> after \<open>await preloadImages\<close>\<close>
  | Burst_Timeout \<comment> \<open>\<open>setTimeout(spawnBurst, 600)\<close>\<close>
  | Burst_Interval \<comment> \<open>\<open>setInterval(spawnBurst, CFG.burstEveryMs)\<close>\<close>
  | Poll_Interval \<comment> \<open>\<open>setInterval(ensureLayersOnVisiblePages, 800)\<close>\<close>
  | Remove_Timeout page lid \<comment> \<open>the removal callback of \<open>maybeDespawn\<close>\<close>
  | Frame_Request \<comment> \<open>\<open>requestAnimationFrame(loop)\<close>\<close>

datatype listener = On_DOMContentLoaded | On_Resize | On_Turning | On_Turned

record wl_state =
  flip :: bool \<comment> \<open>\<open>$flip && $flip.on\<close>: Turn.js events are available\<close>
  running :: bool
  lastT :: real
  frameClock :: real
  spawnTimerId :: "nat option"
  surfaces :: "(page \<times> surface_info) list"
  rng :: draws
  next_lid :: nat
  next_timer :: nat
  tasks :: "(nat \<times> task) list"
  listeners :: "listener list"
  layers_made :: nat \<comment> \<open>layers created by \<open>document.createElement\<close> (line 73); the script never removes one\<close>

text \<open>The state when the script has run: only the \<open>DOMContentLoaded\<close> listener.\<close>

definition init_state :: "draws \<Rightarrow> wl_state" where
  "init_state rs = \<lparr> flip = False, running = False, lastT = 0, frameClock = 0,
     spawnTimerId = None, surfaces = [], rng = rs, next_lid = 0, next_timer = 0,
     tasks = [], listeners = [On_DOMContentLoaded], layers_made = 0 \<rparr>"

text \<open>\<open>url("...")\<close> of a CSS background image.\<close>

definition css_url :: "string \<Rightarrow> string" where
  "css_url s = ''url(\"'' @ s @ ''\")''"

text \<open>\<open>setTimeout\<close>/\<open>setInterval\<close>/\<open>requestAnimationFrame\<close>: queue a task, return its id.\<close>

definition schedule :: "task \<Rightarrow> wl_state \<Rightarrow> nat \<times> wl_state" where
  "schedule t s =
     (next_timer s, s\<lparr>tasks := tasks s @ [(next_timer s, t)], next_timer := Suc (next_timer s)\<rparr>)"

text \<open>The surface record of a page, if it is registered.\<close>

abbreviation surface_of :: "wl_state \<Rightarrow> page \<Rightarrow> surface_info option" where
  "surface_of s el \<equiv> map_of (surfaces s) el"

text \<open>All lice of all surfaces, in iteration order.\<close>

definition all_lice :: "wl_state \<Rightarrow> louse list" where
  "all_lice s = concat (map (lice \<circ> snd) (surfaces s))"

end
