(* ===== verification/Registry.thy ===== *)
theory Registry
  imports Model
begin

text \<open>
  The Surface Registry: \<open>ensureLayersOnVisiblePages\<close> (lines 66--94) and the
  measurement \<open>measure\<close> (lines 113--119) that the other components use.

  \<open>ensure_one\<close> is the body of the \<open>vis.forEach\<close> callback for one page: create,
  attach, style and register a layer when the page has none, otherwise re-attach a
  detached layer and reset its \<open>inset\<close>. The lemmas show that the operation is
  idempotent (a second call with the same view changes nothing, so no duplicate
  layers), that afterwards every visible page has exactly one registered layer that
  is attached to it with inset 0, that it never removes a surface or an agent and
  never touches the lice, and that it keeps the keys of the registry distinct.
\<close>

text \<open>
  \<open>measure(info.layer)\<close>: \<open>W = r.width || el.offsetWidth || 0\<close>, the same for the
  height. The layer of a page is identified by its page.
\<close>

definition measure :: "view \<Rightarrow> page \<Rightarrow> real \<times> real" where
  "measure v el =
     (let r = v_layer_rect v el; (ow, oh) = v_layer_offset v el
      in (js_or (r_width r) (js_or ow 0), js_or (r_height r) (js_or oh 0)))"

text \<open>The layer created at lines 73--81.\<close>

definition new_layer :: "page \<Rightarrow> layer" where
  "new_layer el = \<lparr> layer_parent = Some el, layer_className = ''woodlouse-layer'',
     st_position = ''absolute'', st_inset = ''0'', st_pointerEvents = ''none'',
     st_overflow = ''hidden'', st_zIndex = ''9'' \<rparr>"

text \<open>
  Lines 84--87: \<open>if (info.layer.parentElement !== el) el.appendChild(info.layer)\<close>,
  then \<open>info.layer.style.inset = "0"\<close>.
\<close>

definition reattach :: "page \<Rightarrow> layer \<Rightarrow> layer" where
  "reattach el l =
     (let l' = (if layer_parent l \<noteq> Some el then l\<lparr>layer_parent := Some el\<rparr> else l)
      in l'\<lparr>st_inset := ''0''\<rparr>)"

definition ensure_one :: "page \<Rightarrow> wl_state \<Rightarrow> wl_state" where
  "ensure_one el s =
     (case map_of (surfaces s) el of
        None \<Rightarrow> s\<lparr>surfaces := AList.update el \<lparr>layer = new_layer el, lice = []\<rparr> (surfaces s),
                   layers_made := Suc (layers_made s)\<rparr>
      | Some info \<Rightarrow>
          s\<lparr>surfaces := AList.update el (info\<lparr>layer := reattach el (layer info)\<rparr>) (surfaces s)\<rparr>)"

definition ensureLayersOnVisiblePages :: "view \<Rightarrow> wl_state \<Rightarrow> page list \<times> wl_state" where
  "ensureLayersOnVisiblePages v s =
     (let vis = getVisiblePages v in (vis, fold ensure_one vis s))"

section \<open>Settled pages\<close>

text \<open>A page is settled when it has a registered layer attached to it with inset 0.\<close>

definition settled :: "wl_state \<Rightarrow> page \<Rightarrow> bool" where
  "settled s el \<longleftrightarrow>
     (case map_of (surfaces s) el of
        None \<Rightarrow> False
      | Some info \<Rightarrow> layer_parent (layer info) = Some el \<and> st_inset (layer info) = ''0'')"

lemma reattach_settled [simp]:
  "layer_parent (reattach el l) = Some el" "st_inset (reattach el l) = ''0''"
  by (simp_all add: reattach_def Let_def)

lemma reattach_id:
  "layer_parent l = Some el \<Longrightarrow> st_inset l = ''0'' \<Longrightarrow> reattach el l = l"
  by (simp add: reattach_def)

lemma ensure_one_settles: "settled (ensure_one el s) el"
  by (auto simp: ensure_one_def settled_def update_conv' new_layer_def split: option.splits)

lemma ensure_one_keeps_settled: "settled s el' \<Longrightarrow> settled (ensure_one el s) el'"
  by (cases "el = el'")
     (auto simp: ensure_one_def settled_def update_conv' split: option.splits)

lemma ensure_one_settled_id: "settled s el \<Longrightarrow> ensure_one el s = s"
  by (auto simp: ensure_one_def settled_def reattach_id update_triv split: option.splits)

lemma fold_ensure_settles:
  "settled s el' \<or> el' \<in> set vis \<Longrightarrow> settled (fold ensure_one vis s) el'"
proof (induction vis arbitrary: s)
  case Nil
  then show ?case by simp
next
  case (Cons el vis)
  have "settled (ensure_one el s) el' \<or> el' \<in> set vis"
    using Cons.prems ensure_one_settles ensure_one_keeps_settled by auto
  then show ?case using Cons.IH by simp
qed

lemma fold_ensure_settled_id:
  "\<forall>el \<in> set vis. settled s el \<Longrightarrow> fold ensure_one vis s = s"
  by (induction vis) (simp_all add: ensure_one_settled_id)

section \<open>Frame lemmas\<close>

text \<open>What \<open>ensure_one\<close> keeps: the lice of every surface, the other fields of the
  state, distinct keys, and every registered page.\<close>

lemma ensure_one_lice:
  "map_option lice (map_of (surfaces (ensure_one el s)) el') =
     (if el' = el \<and> map_of (surfaces s) el = None then Some []
      else map_option lice (map_of (surfaces s) el'))"
  by (auto simp: ensure_one_def update_conv' split: option.splits)

lemma ensure_one_other [simp]:
  "rng (ensure_one el s) = rng s" "tasks (ensure_one el s) = tasks s"
  "running (ensure_one el s) = running s" "next_lid (ensure_one el s) = next_lid s"
  "listeners (ensure_one el s) = listeners s" "lastT (ensure_one el s) = lastT s"
  "frameClock (ensure_one el s) = frameClock s" "flip (ensure_one el s) = flip s"
  "next_timer (ensure_one el s) = next_timer s" "spawnTimerId (ensure_one el s) = spawnTimerId s"
  by (simp_all add: ensure_one_def split: option.splits)

lemma ensure_one_distinct:
  "distinct (map fst (surfaces s)) \<Longrightarrow> distinct (map fst (surfaces (ensure_one el s)))"
  by (simp add: ensure_one_def distinct_update split: option.splits)

lemma ensure_one_dom:
  "fst ` set (surfaces (ensure_one el s)) = insert el (fst ` set (surfaces s))"
  by (simp add: ensure_one_def dom_update split: option.splits)

lemma fold_ensure_other [simp]:
  "rng (fold ensure_one vis s) = rng s" "tasks (fold ensure_one vis s) = tasks s"
  "running (fold ensure_one vis s) = running s" "next_lid (fold ensure_one vis s) = next_lid s"
  "listeners (fold ensure_one vis s) = listeners s" "lastT (fold ensure_one vis s) = lastT s"
  "frameClock (fold ensure_one vis s) = frameClock s" "flip (fold ensure_one vis s) = flip s"
  "next_timer (fold ensure_one vis s) = next_timer s"
  "spawnTimerId (fold ensure_one vis s) = spawnTimerId s"
  by (induction vis arbitrary: s) simp_all

lemma fold_ensure_distinct:
  "distinct (map fst (surfaces s)) \<Longrightarrow> distinct (map fst (surfaces (fold ensure_one vis s)))"
  by (induction vis arbitrary: s) (simp_all add: ensure_one_distinct)

lemma fold_ensure_dom:
  "fst ` set (surfaces (fold ensure_one vis s)) = set vis \<union> fst ` set (surfaces s)"
  by (induction vis arbitrary: s) (auto simp: ensure_one_dom)

lemma fold_ensure_lice:
  "map_option lice (map_of (surfaces (fold ensure_one vis s)) el) =
     (if el \<in> set vis \<and> map_of (surfaces s) el = None then Some []
      else map_option lice (map_of (surfaces s) el))"
proof (induction vis arbitrary: s)
  case Nil
  then show ?case by simp
next
  case (Cons el0 vis)
  have "map_of (surfaces (ensure_one el0 s)) el = None \<longleftrightarrow>
        el \<noteq> el0 \<and> map_of (surfaces s) el = None"
    by (auto simp: ensure_one_def update_conv' split: option.splits)
  with Cons.IH [of "ensure_one el0 s"] show ?case
    by (auto simp: ensure_one_lice)
qed

lemma ensure_one_made:
  "layers_made (ensure_one el s) =
     (if el \<in> fst ` set (surfaces s) then layers_made s else Suc (layers_made s))"
proof -
  have "el \<in> fst ` set (surfaces s) \<longleftrightarrow> map_of (surfaces s) el \<noteq> None" by (simp add: map_of_eq_None_iff)
  then show ?thesis by (cases "map_of (surfaces s) el") (simp_all add: ensure_one_def)
qed

lemma fold_ensure_made:
  "layers_made (fold ensure_one vis s) = layers_made s + card (set vis - fst ` set (surfaces s))"
proof (induction vis arbitrary: s)
  case Nil
  then show ?case by simp
next
  case (Cons el vis)
  let ?D = "fst ` set (surfaces s)"
  show ?case
  proof (cases "el \<in> ?D")
    case True
    then have "set (el # vis) - ?D = set vis - ?D" by auto
    moreover have "fst ` set (surfaces (ensure_one el s)) = ?D" using True by (simp add: ensure_one_dom insert_absorb)
    ultimately show ?thesis using Cons.IH [of "ensure_one el s"] True by (simp add: ensure_one_made)
  next
    case False
    then have "set (el # vis) - ?D = insert el (set vis - insert el ?D)" by auto
    then have "card (set (el # vis) - ?D) = Suc (card (set vis - insert el ?D))" by simp
    then show ?thesis using Cons.IH [of "ensure_one el s"] False by (simp add: ensure_one_made ensure_one_dom)
  qed
qed

text \<open>
  C6: a refresh creates a layer exactly for each visible page not yet registered, and
  ensuring the layers twice with no change of the page is the same as ensuring them once
  (the count of created layers included): repeated refreshes (every resize, every turn,
  every poll) never create a second layer for a page or move an attached one.
\<close>

theorem ensureLayersOnVisiblePages_idempotent:
  "ensureLayersOnVisiblePages v (snd (ensureLayersOnVisiblePages v s)) = ensureLayersOnVisiblePages v s \<and>
   layers_made (snd (ensureLayersOnVisiblePages v s)) =
     layers_made s + card (set (getVisiblePages v) - fst ` set (surfaces s))"
proof -
  let ?vis = "getVisiblePages v"
  have "\<forall>el \<in> set ?vis. settled (fold ensure_one ?vis s) el"
    by (simp add: fold_ensure_settles)
  then have "fold ensure_one ?vis (fold ensure_one ?vis s) = fold ensure_one ?vis s"
    by (rule fold_ensure_settled_id)
  then show ?thesis by (simp add: ensureLayersOnVisiblePages_def Let_def fold_ensure_made)
qed

end
