(* ===== verification/Route.thy ===== *)
theory Route
  imports Registry
begin

text \<open>
  The Route Configurator: \<open>makeLouse\<close> (lines 97--110) and \<open>configureRoute\<close>
  (lines 122--163). Each threads the stream of \<open>Math.random()\<close> draws in the order
  the code draws: \<open>makeLouse\<close> one (the first wander angle); \<open>configureRoute\<close> the
  side, the entry coordinate and the exit coordinate (only on a surface large enough
  for a route), then the speed and the wander offset.

  \<open>place_route\<close> is the placement (lines 123--152), \<open>configureRoute\<close> adds the
  initial velocity, wander heading and transform (lines 154--162). The lemmas give
  the placement on every branch (the degenerate fallback and the four sides), that
  the initial speed is the drawn speed, in \<open>[speedMin, speedMax)\<close>, and that the
  initial velocity points from the entry point to the exit point.
\<close>

definition makeLouse :: "page \<Rightarrow> lid \<Rightarrow> draws \<Rightarrow> louse \<times> draws" where
  "makeLouse el i rs =
     (let (r, rs') = js_random rs
      in (\<lparr> lid = i, home = el, el_className = [''woodlouse''], el_size = cfg_size CFG,
            el_bg = css_url (imgs CFG ! 0), el_transform = None,
            lx = 0, ly = 0, lvx = 0, lvy = 0, frame = 0, alive = True,
            wanderAngle = rnd 0 (pi * 2) r, exit_x = 0, exit_y = 0 \<rparr>, rs'))"

text \<open>\<open>clamp(rnd(lo, hi), lo, hi)\<close>, the entry and exit coordinates along an edge.\<close>

definition edge_pos :: "real \<Rightarrow> real \<Rightarrow> draws \<Rightarrow> real \<times> draws" where
  "edge_pos lo hi rs = (let (r, rs') = js_random rs in (clamp (rnd lo hi r) lo hi, rs'))"

text \<open>
  The four branches of lines 131--151, for the side \<open>Math.floor(Math.random()*4)\<close>:
  0 bottom, 1 top, 2 left, anything else right.
\<close>

definition enter_side :: "int \<Rightarrow> louse \<Rightarrow> real \<Rightarrow> real \<Rightarrow> draws \<Rightarrow> louse \<times> draws" where
  "enter_side side L W H rs =
     (let S = cfg_size CFG; pad = edgePad CFG in
      if side = 0 then
        (let (x, rs1) = edge_pos pad (W - S - pad) rs; (ex, rs2) = edge_pos pad (W - S - pad) rs1
         in (L\<lparr>lx := x, ly := H - S, exit_x := ex, exit_y := - S - 6\<rparr>, rs2))
      else if side = 1 then
        (let (x, rs1) = edge_pos pad (W - S - pad) rs; (ex, rs2) = edge_pos pad (W - S - pad) rs1
         in (L\<lparr>lx := x, ly := 0, exit_x := ex, exit_y := H + 6\<rparr>, rs2))
      else if side = 2 then
        (let (y, rs1) = edge_pos pad (H - S - pad) rs; (ey, rs2) = edge_pos pad (H - S - pad) rs1
         in (L\<lparr>lx := 0, ly := y, exit_x := W + 6, exit_y := ey\<rparr>, rs2))
      else
        (let (y, rs1) = edge_pos pad (H - S - pad) rs; (ey, rs2) = edge_pos pad (H - S - pad) rs1
         in (L\<lparr>lx := W - S, ly := y, exit_x := - S - 6, exit_y := ey\<rparr>, rs2)))"

text \<open>Lines 123--152: the degenerate-size guard, else a random side.\<close>

definition place_route :: "louse \<Rightarrow> real \<Rightarrow> real \<Rightarrow> draws \<Rightarrow> louse \<times> draws" where
  "place_route L W H rs =
     (let S = cfg_size CFG; pad = edgePad CFG in
      if W < S + pad * 2 \<or> H < S + pad * 2 then
        (L\<lparr>lx := pad, ly := pad, exit_x := W - S - pad, exit_y := H - S - pad\<rparr>, rs)
      else (let (r, rs1) = js_random rs in enter_side \<lfloor>r * 4\<rfloor> L W H rs1))"

definition configureRoute :: "louse \<Rightarrow> real \<Rightarrow> real \<Rightarrow> draws \<Rightarrow> louse \<times> draws" where
  "configureRoute L0 W H rs0 =
     (let (L, rs) = place_route L0 W H rs0;
          dx = exit_x L - lx L; dy = exit_y L - ly L;
          ang = atan2 dy dx;
          (r1, rs1) = js_random rs; spd = rnd (fst (baseSpeed CFG)) (snd (baseSpeed CFG)) r1;
          (r2, rs2) = js_random rs1
      in (L\<lparr>lvx := cos ang * spd, lvy := sin ang * spd, wanderAngle := ang + rnd (-0.4) 0.4 r2,
            el_transform := Some (lx L, ly L, ang + pi / 2)\<rparr>, rs2))"

text \<open>
  What the spec asks of a sized route: the louse enters on one edge, at a position within
  the padded range of that edge, and aims at a point of the padded range beyond the
  opposite edge.
\<close>

definition crosses :: "real \<Rightarrow> real \<Rightarrow> louse \<Rightarrow> bool" where
  "crosses W H L \<longleftrightarrow>
     (ly L = H - 46 \<and> exit_y L < 0 \<and> 6 \<le> lx L \<and> lx L \<le> W - 52 \<and> 6 \<le> exit_x L \<and> exit_x L \<le> W - 52) \<or>
     (ly L = 0 \<and> H < exit_y L \<and> 6 \<le> lx L \<and> lx L \<le> W - 52 \<and> 6 \<le> exit_x L \<and> exit_x L \<le> W - 52) \<or>
     (lx L = 0 \<and> W < exit_x L \<and> 6 \<le> ly L \<and> ly L \<le> H - 52 \<and> 6 \<le> exit_y L \<and> exit_y L \<le> H - 52) \<or>
     (lx L = W - 46 \<and> exit_x L < 0 \<and> 6 \<le> ly L \<and> ly L \<le> H - 52 \<and> 6 \<le> exit_y L \<and> exit_y L \<le> H - 52)"

section \<open>Placement\<close>

lemma edge_pos_bounds:
  "lo \<le> hi \<Longrightarrow> edge_pos lo hi rs = (p, rs') \<Longrightarrow> lo \<le> p \<and> p \<le> hi"
  by (auto simp: edge_pos_def js_random_def clamp_lower clamp_upper)

lemma edge_pos_draws:
  "edge_pos lo hi rs = (p, rs') \<Longrightarrow> rs' = stl rs"
  by (simp add: edge_pos_def js_random_def)

text \<open>Two coordinates drawn along the same edge, with their bounds.\<close>

lemma edge_pair:
  assumes "lo \<le> hi"
  obtains a b where "edge_pos lo hi rs = (a, stl rs)" "edge_pos lo hi (stl rs) = (b, stl (stl rs))"
    "lo \<le> a" "a \<le> hi" "lo \<le> b" "b \<le> hi"
proof -
  obtain a b where "edge_pos lo hi rs = (a, stl rs)" "edge_pos lo hi (stl rs) = (b, stl (stl rs))"
    by (simp add: edge_pos_def js_random_def)
  with assms edge_pos_bounds show ?thesis using that by blast
qed

lemma enter_side_bottom:
  assumes "58 \<le> W"
  obtains x ex where "enter_side 0 L W H rs =
      (L\<lparr>lx := x, ly := H - 46, exit_x := ex, exit_y := -52\<rparr>, stl (stl rs))"
    "6 \<le> x" "x \<le> W - 52" "6 \<le> ex" "ex \<le> W - 52"
proof -
  from assms have "(6::real) \<le> W - 52" by simp
  then obtain a b where "edge_pos 6 (W - 52) rs = (a, stl rs)"
      "edge_pos 6 (W - 52) (stl rs) = (b, stl (stl rs))" "6 \<le> a" "a \<le> W - 52" "6 \<le> b" "b \<le> W - 52"
    by (rule edge_pair)
  then show ?thesis using that by (simp add: enter_side_def)
qed

lemma enter_side_top:
  assumes "58 \<le> W"
  obtains x ex where "enter_side 1 L W H rs =
      (L\<lparr>lx := x, ly := 0, exit_x := ex, exit_y := H + 6\<rparr>, stl (stl rs))"
    "6 \<le> x" "x \<le> W - 52" "6 \<le> ex" "ex \<le> W - 52"
proof -
  from assms have "(6::real) \<le> W - 52" by simp
  then obtain a b where "edge_pos 6 (W - 52) rs = (a, stl rs)"
      "edge_pos 6 (W - 52) (stl rs) = (b, stl (stl rs))" "6 \<le> a" "a \<le> W - 52" "6 \<le> b" "b \<le> W - 52"
    by (rule edge_pair)
  then show ?thesis using that by (simp add: enter_side_def)
qed

lemma enter_side_left:
  assumes "58 \<le> H"
  obtains y ey where "enter_side 2 L W H rs =
      (L\<lparr>lx := 0, ly := y, exit_x := W + 6, exit_y := ey\<rparr>, stl (stl rs))"
    "6 \<le> y" "y \<le> H - 52" "6 \<le> ey" "ey \<le> H - 52"
proof -
  from assms have "(6::real) \<le> H - 52" by simp
  then obtain a b where "edge_pos 6 (H - 52) rs = (a, stl rs)"
      "edge_pos 6 (H - 52) (stl rs) = (b, stl (stl rs))" "6 \<le> a" "a \<le> H - 52" "6 \<le> b" "b \<le> H - 52"
    by (rule edge_pair)
  then show ?thesis using that by (simp add: enter_side_def)
qed

lemma enter_side_right:
  assumes "58 \<le> H" "side \<notin> {0, 1, 2}"
  obtains y ey where "enter_side side L W H rs =
      (L\<lparr>lx := W - 46, ly := y, exit_x := -52, exit_y := ey\<rparr>, stl (stl rs))"
    "6 \<le> y" "y \<le> H - 52" "6 \<le> ey" "ey \<le> H - 52"
proof -
  from assms have "(6::real) \<le> H - 52" by simp
  then obtain a b where "edge_pos 6 (H - 52) rs = (a, stl rs)"
      "edge_pos 6 (H - 52) (stl rs) = (b, stl (stl rs))" "6 \<le> a" "a \<le> H - 52" "6 \<le> b" "b \<le> H - 52"
    by (rule edge_pair)
  then show ?thesis using that assms(2) by (simp add: enter_side_def)
qed

lemma place_route_fallback:
  "W < 58 \<or> H < 58 \<Longrightarrow> place_route L W H rs =
     (L\<lparr>lx := 6, ly := 6, exit_x := W - 52, exit_y := H - 52\<rparr>, rs)"
  by (simp add: place_route_def)

lemma place_route_sized:
  "58 \<le> W \<Longrightarrow> 58 \<le> H \<Longrightarrow>
     place_route L W H rs = enter_side \<lfloor>shd rs * 4\<rfloor> L W H (stl rs)"
  by (simp add: place_route_def js_random_def)

text \<open>On every branch the exit point differs from the entry point.\<close>

lemma place_route_moves:
  assumes "place_route L W H rs = (L', rs')"
  shows "hypot (exit_x L' - lx L') (exit_y L' - ly L') \<noteq> 0"
proof (cases "W < 58 \<or> H < 58")
  case True
  with assms show ?thesis by (auto simp: place_route_fallback hypot_zero_iff)
next
  case False
  then have W: "58 \<le> W" and H: "58 \<le> H" by auto
  let ?side = "\<lfloor>shd rs * 4\<rfloor>"
  have P: "place_route L W H rs = enter_side ?side L W H (stl rs)"
    using W H by (rule place_route_sized)
  consider "?side = 0" | "?side = 1" | "?side = 2" | "?side \<notin> {0, 1, 2}" by blast
  then show ?thesis
  proof cases
    case 1
    with W obtain x ex where "enter_side ?side L W H (stl rs) =
        (L\<lparr>lx := x, ly := H - 46, exit_x := ex, exit_y := -52\<rparr>, stl (stl (stl rs)))"
      by (metis enter_side_bottom)
    with P assms H show ?thesis by (auto simp: hypot_zero_iff)
  next
    case 2
    with W obtain x ex where "enter_side ?side L W H (stl rs) =
        (L\<lparr>lx := x, ly := 0, exit_x := ex, exit_y := H + 6\<rparr>, stl (stl (stl rs)))"
      by (metis enter_side_top)
    with P assms H show ?thesis by (auto simp: hypot_zero_iff)
  next
    case 3
    with H obtain y ey where "enter_side ?side L W H (stl rs) =
        (L\<lparr>lx := 0, ly := y, exit_x := W + 6, exit_y := ey\<rparr>, stl (stl (stl rs)))"
      by (metis enter_side_left)
    with P assms W show ?thesis by (auto simp: hypot_zero_iff)
  next
    case 4
    with H obtain y ey where "enter_side ?side L W H (stl rs) =
        (L\<lparr>lx := W - 46, ly := y, exit_x := -52, exit_y := ey\<rparr>, stl (stl (stl rs)))"
      by (metis enter_side_right)
    with P assms W show ?thesis by (auto simp: hypot_zero_iff)
  qed
qed

section \<open>Initial kinematics\<close>

text \<open>\<open>configureRoute\<close> after the placement: the drawn speed and the wander offset.\<close>

lemma configureRoute_unfold:
  assumes "place_route L W H rs = (L1, rs1)"
  shows "configureRoute L W H rs =
    (let dx = exit_x L1 - lx L1; dy = exit_y L1 - ly L1; ang = atan2 dy dx;
         spd = rnd 300 420 (shd rs1)
     in (L1\<lparr>lvx := cos ang * spd, lvy := sin ang * spd,
            wanderAngle := ang + rnd (-0.4) 0.4 (shd (stl rs1)),
            el_transform := Some (lx L1, ly L1, ang + pi / 2)\<rparr>, stl (stl rs1)))"
  using assms by (simp add: configureRoute_def js_random_def Let_def)

lemma configureRoute_keeps:
  assumes "configureRoute L W H rs = (L', rs')"
  shows "lid L' = lid L \<and> home L' = home L \<and> alive L' = alive L \<and> frame L' = frame L \<and>
    el_className L' = el_className L \<and> el_bg L' = el_bg L"
proof -
  obtain L1 rs1 where P: "place_route L W H rs = (L1, rs1)" by (metis surj_pair)
  then have "lid L1 = lid L \<and> home L1 = home L \<and> alive L1 = alive L \<and> frame L1 = frame L \<and>
      el_className L1 = el_className L \<and> el_bg L1 = el_bg L"
    by (auto simp: place_route_def enter_side_def edge_pos_def js_random_def Let_def
        split: if_splits)
  with assms show ?thesis by (auto simp: configureRoute_unfold [OF P] Let_def)
qed

lemma place_route_draws:
  "place_route L W H rs = (L1, rs1) \<Longrightarrow> rs1 = rs \<or> rs1 = stl (stl (stl rs))"
  by (auto simp: place_route_def enter_side_def edge_pos_def js_random_def Let_def
      split: if_splits)

text \<open>
  The initial velocity is a positive multiple of the vector from the entry point to the
  exit point, and its length is the drawn speed, in \<open>[speedMin, speedMax)\<close>.
\<close>

lemma configureRoute_velocity:
  assumes "valid_draws rs" "configureRoute L W H rs = (L', rs')"
  shows "\<exists>k > 0. lvx L' = (exit_x L' - lx L') * k \<and> lvy L' = (exit_y L' - ly L') * k"
    and "300 \<le> hypot (lvx L') (lvy L') \<and> hypot (lvx L') (lvy L') < 420"
proof -
  obtain L1 rs1 where P: "place_route L W H rs = (L1, rs1)" by (metis surj_pair)
  let ?dx = "exit_x L1 - lx L1" and ?dy = "exit_y L1 - ly L1"
  let ?spd = "rnd 300 420 (shd rs1)"
  have h: "hypot ?dx ?dy \<noteq> 0" using P by (rule place_route_moves)
  have "valid_draws rs1" using place_route_draws [OF P] assms(1) by auto
  then have r: "0 \<le> shd rs1" "shd rs1 < 1" by (simp_all add: valid_draws_shd)
  then have spd: "300 \<le> ?spd" "?spd < 420" by (simp_all add: rnd_lower rnd_upper)
  have L': "L' = L1\<lparr>lvx := cos (atan2 ?dy ?dx) * ?spd, lvy := sin (atan2 ?dy ?dx) * ?spd,
            wanderAngle := atan2 ?dy ?dx + rnd (-0.4) 0.4 (shd (stl rs1)),
            el_transform := Some (lx L1, ly L1, atan2 ?dy ?dx + pi / 2)\<rparr>"
    using assms(2) by (simp add: configureRoute_unfold [OF P] Let_def)
  have "0 < hypot ?dx ?dy" using h hypot_nonneg by (metis order_le_less)
  then have k: "0 < ?spd / hypot ?dx ?dy" using spd by (intro divide_pos_pos) auto
  show "\<exists>k > 0. lvx L' = (exit_x L' - lx L') * k \<and> lvy L' = (exit_y L' - ly L') * k"
    using k h by (auto simp: L' cos_atan2_scaled sin_atan2_scaled)
  show "300 \<le> hypot (lvx L') (lvy L') \<and> hypot (lvx L') (lvy L') < 420"
    using spd by (simp add: L' hypot_cos_sin)
qed

lemma configureRoute_lid: "lid (fst (configureRoute L W H rs)) = lid L"
  using configureRoute_keeps [OF prod.collapse [symmetric]] by simp

lemma makeLouse_lid: "lid (fst (makeLouse el i rs)) = i"
  by (simp add: makeLouse_def js_random_def)

lemma makeLouse_fields:
  "makeLouse el i rs = (L, rs') \<Longrightarrow> lid L = i \<and> home L = el \<and> alive L \<and> rs' = stl rs"
  by (auto simp: makeLouse_def js_random_def)

lemma configureRoute_valid:
  assumes "valid_draws rs" shows "valid_draws (snd (configureRoute L W H rs))"
proof -
  obtain L1 rs1 where P: "place_route L W H rs = (L1, rs1)" by (metis surj_pair)
  have "valid_draws rs1" using place_route_draws [OF P] assms by auto
  then show ?thesis by (simp add: configureRoute_unfold [OF P] Let_def valid_draws_stl)
qed

text \<open>
  C5: a route that enters from the bottom edge (side 0, a first draw below 1/4) on a
  surface large enough for a route starts at \<open>y = H - S\<close>, aims at an exit above
  the top edge (\<open>exit.y < 0\<close>) and moves upward (\<open>vy < 0\<close>).
\<close>

theorem configureRoute_bottom:
  assumes "58 \<le> W" "58 \<le> H" "valid_draws rs" "shd rs < 1 / 4"
  shows "ly (fst (configureRoute L W H rs)) = H - 46 \<and> exit_y (fst (configureRoute L W H rs)) < 0 \<and>
         lvy (fst (configureRoute L W H rs)) < 0"
proof -
  have "0 \<le> shd rs" using assms(3) by (simp add: valid_draws_shd)
  with assms(4) have side: "\<lfloor>shd rs * 4\<rfloor> = 0" by linarith
  obtain x ex where E: "enter_side 0 L W H (stl rs) =
      (L\<lparr>lx := x, ly := H - 46, exit_x := ex, exit_y := -52\<rparr>, stl (stl (stl rs)))"
    using assms(1) by (rule enter_side_bottom)
  let ?L1 = "L\<lparr>lx := x, ly := H - 46, exit_x := ex, exit_y := -52\<rparr>"
  have P: "place_route L W H rs = (?L1, stl (stl (stl rs)))"
    using place_route_sized [OF assms(1,2)] side E by simp
  let ?L' = "fst (configureRoute L W H rs)"
  have C: "configureRoute L W H rs = (?L', snd (configureRoute L W H rs))" by simp
  have pos: "ly ?L' = H - 46 \<and> exit_y ?L' = -52"
    by (simp add: configureRoute_unfold [OF P] Let_def)
  obtain k where "0 < k" "lvy ?L' = (exit_y ?L' - ly ?L') * k"
    using configureRoute_velocity(1) [OF assms(3) C] by blast
  moreover have "exit_y ?L' - ly ?L' < 0" using pos assms(2) by simp
  ultimately have "lvy ?L' < 0" by (simp add: mult_neg_pos)
  with pos show ?thesis by simp
qed

theorem configureRoute_bottom_witness:
  "let L = fst (makeLouse 0 0 (sconst 0)); rs = sconst (1 / 10) in
   58 \<le> (400::real) \<and> 58 \<le> (300::real) \<and> valid_draws rs \<and> shd rs < 1 / 4 \<and>
   ly (fst (configureRoute L 400 300 rs)) = 300 - 46 \<and> exit_y (fst (configureRoute L 400 300 rs)) < 0 \<and>
   lvy (fst (configureRoute L 400 300 rs)) < 0"
proof -
  have v: "valid_draws (sconst (1 / 10))" by (simp add: valid_draws_sconst)
  have h: "shd (sconst (1 / 10)) < (1 / 4 :: real)" by simp
  from configureRoute_bottom [of 400 300 "sconst (1 / 10)" "fst (makeLouse 0 0 (sconst 0))"] v h
  show ?thesis by (simp only: Let_def) simp
qed

lemma enter_side_crosses:
  assumes W: "58 \<le> W" and H: "58 \<le> H"
  shows "crosses W H (fst (enter_side side L W H rs))"
proof -
  consider "side = 0" | "side = 1" | "side = 2" | "side \<notin> {0, 1, 2}" by auto
  then show ?thesis
  proof cases
    case 1
    obtain x ex where "enter_side 0 L W H rs = (L\<lparr>lx := x, ly := H - 46, exit_x := ex, exit_y := -52\<rparr>, stl (stl rs))"
      "6 \<le> x" "x \<le> W - 52" "6 \<le> ex" "ex \<le> W - 52" using W by (rule enter_side_bottom)
    with 1 show ?thesis by (simp add: crosses_def)
  next
    case 2
    obtain x ex where "enter_side 1 L W H rs = (L\<lparr>lx := x, ly := 0, exit_x := ex, exit_y := H + 6\<rparr>, stl (stl rs))"
      "6 \<le> x" "x \<le> W - 52" "6 \<le> ex" "ex \<le> W - 52" using W by (rule enter_side_top)
    with 2 show ?thesis by (simp add: crosses_def)
  next
    case 3
    obtain y ey where "enter_side 2 L W H rs = (L\<lparr>lx := 0, ly := y, exit_x := W + 6, exit_y := ey\<rparr>, stl (stl rs))"
      "6 \<le> y" "y \<le> H - 52" "6 \<le> ey" "ey \<le> H - 52" using H by (rule enter_side_left)
    with 3 show ?thesis by (simp add: crosses_def)
  next
    case 4
    obtain y ey where "enter_side side L W H rs = (L\<lparr>lx := W - 46, ly := y, exit_x := -52, exit_y := ey\<rparr>, stl (stl rs))"
      "6 \<le> y" "y \<le> H - 52" "6 \<le> ey" "ey \<le> H - 52" using H 4 by (rule enter_side_right)
    then show ?thesis by (simp add: crosses_def)
  qed
qed

lemma configureRoute_place:
  "lx (fst (configureRoute L W H rs)) = lx (fst (place_route L W H rs)) \<and>
   ly (fst (configureRoute L W H rs)) = ly (fst (place_route L W H rs)) \<and>
   exit_x (fst (configureRoute L W H rs)) = exit_x (fst (place_route L W H rs)) \<and>
   exit_y (fst (configureRoute L W H rs)) = exit_y (fst (place_route L W H rs))"
  by (cases "place_route L W H rs") (simp add: configureRoute_unfold Let_def)

text \<open>
  C14: on a surface large enough for the agent and its padding, every route, whatever the
  draws, enters on one edge within that edge's padded range and aims beyond the opposite
  edge.
\<close>

theorem configureRoute_crosses:
  assumes "58 \<le> W" and "58 \<le> H"
  shows "crosses W H (fst (configureRoute L W H rs))"
  using enter_side_crosses [OF assms, of "\<lfloor>shd rs * 4\<rfloor>" L "stl rs"] configureRoute_place [of L W H rs]
  by (simp add: place_route_sized [OF assms] crosses_def)

theorem configureRoute_crosses_witness:
  "58 \<le> (640::real) \<and> 58 \<le> (480::real) \<and>
   crosses 640 480 (fst (configureRoute (fst (makeLouse 0 0 (sconst 0))) 640 480 (sconst (3 / 4))))"
  using configureRoute_crosses [of 640 480 "fst (makeLouse 0 0 (sconst 0))" "sconst (3 / 4)"] by simp

end
