(* ===== verification/Steering.thy ===== *)
theory Steering
  imports Route
begin

text \<open>
  The Locomotion Engine for one louse: \<open>limit\<close> (lines 201--205), \<open>steerToward\<close>
  (lines 207--219), \<open>wanderForce\<close> (lines 221--229) and the body of the per-louse
  callback of \<open>tick\<close> up to the despawn test (lines 258--280): \<open>move_louse\<close>,
  with the speed clamp of lines 270--272 as \<open>clamp_speed\<close>.

  The lemmas bound the steering forces (\<open>limit\<close> never returns a vector longer than
  its budget), and show the speed property of the spec: when a louse moves at least
  \<open>speedMin\<close> and the step is at most 50 ms (what \<open>loop\<close> guarantees), the velocity
  after the step has length in \<open>[speedMin, speedMax]\<close>. The clamp alone does not
  guarantee it: a velocity that is exactly zero stays zero (\<open>hypot || 1\<close> rescales
  \<open>0\<close> by 300), which the lemma \<open>clamp_speed_zero\<close> records; the bound on the
  acceleration and the inertia keep the integrated velocity away from zero.
\<close>

definition limit :: "real \<Rightarrow> real \<Rightarrow> real \<Rightarrow> real \<times> real" where
  "limit x y m0 =
     (let m = hypot x y in if m > m0 \<and> m > 0 then (let k = m0 / m in (x * k, y * k)) else (x, y))"

definition steerToward :: "louse \<Rightarrow> real \<Rightarrow> real \<Rightarrow> real \<Rightarrow> real \<times> real" where
  "steerToward L tx ty accelBudget =
     (let dx = tx - lx L; dy = ty - ly L;
          len = js_or (hypot dx dy) 1;
          desiredSpeed = clamp (hypot (lvx L) (lvy L)) (speedMin CFG) (speedMax CFG);
          desiredX = dx / len * desiredSpeed;
          desiredY = dy / len * desiredSpeed
      in limit (desiredX - lvx L) (desiredY - lvy L) accelBudget)"

text \<open>\<open>wanderForce(L, dt)\<close>: one draw \<open>r\<close>; it updates the heading and returns the force.\<close>

definition wanderForce :: "louse \<Rightarrow> real \<Rightarrow> real \<Rightarrow> louse \<times> real \<times> real" where
  "wanderForce L dt r =
     (let maxDelta = wanderTurnRate CFG * dt;
          delta = rnd (- maxDelta) maxDelta r * (0.5 + 0.5 * wanderJitter CFG);
          L' = L\<lparr>wanderAngle := wanderAngle L + delta\<rparr>
      in (L', cos (wanderAngle L') * wanderStrength CFG, sin (wanderAngle L') * wanderStrength CFG))"

text \<open>Lines 270--272.\<close>

definition clamp_speed :: "real \<Rightarrow> real \<Rightarrow> real \<times> real" where
  "clamp_speed vx vy =
     (let sp = js_or (hypot vx vy) 1;
          spClamped = clamp sp (speedMin CFG) (speedMax CFG)
      in if sp \<noteq> spClamped then (vx * (spClamped / sp), vy * (spClamped / sp)) else (vx, vy))"

text \<open>
  The speed clamp as the spec states it (step 5 of the Locomotion Engine): rescale the
  velocity so that its magnitude lies in \<open>[speedMin, speedMax]\<close>, keeping its
  direction; the zero vector has no direction and stays zero.
\<close>

definition rescale_speed :: "real \<Rightarrow> real \<Rightarrow> real \<times> real" where
  "rescale_speed vx vy =
     (let n = hypot vx vy
      in if n = 0 then (0, 0)
         else (let k = clamp n (speedMin CFG) (speedMax CFG) / n in (vx * k, vy * k)))"

text \<open>Lines 259--280 for an alive louse, with the wander draw \<open>r\<close>.\<close>

definition move_louse :: "real \<Rightarrow> real \<Rightarrow> louse \<Rightarrow> louse" where
  "move_louse dt r L0 =
     (let (L, wx, wy) = wanderForce L0 dt r;
          (sx, sy) = steerToward L (exit_x L) (exit_y L) (accelMax CFG);
          (ax, ay) = limit (wx + sx * pathBias CFG) (wy + sy * pathBias CFG) (accelMax CFG);
          vx = lvx L * inertia CFG + ax * dt;
          vy = lvy L * inertia CFG + ay * dt;
          (vx', vy') = clamp_speed vx vy;
          x = lx L + vx' * dt;
          y = ly L + vy' * dt;
          ang = atan2 vy' vx' + pi / 2
      in L\<lparr>lvx := vx', lvy := vy', lx := x, ly := y, el_transform := Some (x, y, ang)\<rparr>)"

section \<open>limit\<close>

lemma limit_bound:
  assumes "0 \<le> m0" "limit x y m0 = (ax, ay)"
  shows "hypot ax ay \<le> m0"
proof (cases "hypot x y > m0 \<and> hypot x y > 0")
  case True
  define k where "k = m0 / hypot x y"
  have "ax = x * k" "ay = y * k"
    using True assms(2) by (simp_all add: limit_def Let_def k_def)
  then have "hypot ax ay = \<bar>k\<bar> * hypot x y"
    by (simp only: hypot_scale)
  also have "\<dots> = m0" using True assms(1) by (simp add: k_def)
  finally show ?thesis by simp
next
  case False
  then show ?thesis using assms by (auto simp: limit_def Let_def)
qed

section \<open>The speed clamp\<close>

lemma clamp_speed_bounds:
  assumes "hypot vx vy \<noteq> 0" "clamp_speed vx vy = (vx', vy')"
  shows "300 \<le> hypot vx' vy' \<and> hypot vx' vy' \<le> 420"
proof -
  let ?sp = "hypot vx vy"
  let ?c = "clamp ?sp 300 420"
  have c: "300 \<le> ?c" "?c \<le> 420" by (simp_all add: clamp_lower clamp_upper)
  define k where "k = ?c / ?sp"
  show ?thesis
  proof (cases "?sp = ?c")
    case True
    with assms c show ?thesis by (simp add: clamp_speed_def)
  next
    case False
    then have "vx' = vx * k" "vy' = vy * k"
      using assms by (simp_all add: clamp_speed_def Let_def k_def)
    then have "hypot vx' vy' = \<bar>k\<bar> * ?sp" by (simp only: hypot_scale)
    also have "\<dots> = ?c" using assms(1) c by (simp add: k_def)
    finally show ?thesis using c by simp
  qed
qed

text \<open>The clamp leaves a zero velocity at zero: \<open>Math.hypot(0,0) || 1\<close> is 1.\<close>

lemma clamp_speed_zero: "clamp_speed 0 0 = (0, 0)"
  by (simp add: clamp_speed_def Let_def clamp_def)

section \<open>One step of a louse\<close>

text \<open>A velocity scaled by the inertia plus a bounded acceleration over a short step
  stays away from zero.\<close>

lemma integrate_nonzero:
  assumes v: "300 \<le> hypot vx vy" and a: "hypot ax ay \<le> 800" and dt: "\<bar>dt\<bar> \<le> 0.05"
  shows "hypot (vx * 0.88 + ax * dt) (vy * 0.88 + ay * dt) \<noteq> 0"
proof -
  have "hypot (vx * 0.88) (vy * 0.88) - hypot (ax * dt) (ay * dt)
          \<le> hypot (vx * 0.88 + ax * dt) (vy * 0.88 + ay * dt)"
    by (rule hypot_reverse_triangle)
  moreover have "hypot (vx * 0.88) (vy * 0.88) = 0.88 * hypot vx vy"
    by (simp only: hypot_scale) simp
  moreover have "hypot (ax * dt) (ay * dt) = \<bar>dt\<bar> * hypot ax ay"
    by (rule hypot_scale)
  moreover have "\<bar>dt\<bar> * hypot ax ay \<le> 0.05 * 800"
    using a dt by (intro mult_mono) auto
  moreover have "0.88 * 300 \<le> 0.88 * hypot vx vy"
    using v by simp
  ultimately have "0.88 * 300 - 0.05 * 800 \<le> hypot (vx * 0.88 + ax * dt) (vy * 0.88 + ay * dt)"
    by linarith
  then show ?thesis by simp
qed

lemma steer_accel_bound:
  "limit (wx + sx * pathBias CFG) (wy + sy * pathBias CFG) (accelMax CFG) = (ax, ay) \<Longrightarrow>
     hypot ax ay \<le> 800"
  using limit_bound [of "accelMax CFG"] by simp

lemma move_louse_keeps [simp]:
  "lid (move_louse dt r L) = lid L" "home (move_louse dt r L) = home L"
  "alive (move_louse dt r L) = alive L" "frame (move_louse dt r L) = frame L"
  "exit_x (move_louse dt r L) = exit_x L" "exit_y (move_louse dt r L) = exit_y L"
  "el_className (move_louse dt r L) = el_className L" "el_bg (move_louse dt r L) = el_bg L"
  by (simp_all add: move_louse_def wanderForce_def Let_def split: prod.splits)

text \<open>The position is integrated with the new velocity (lines 276--277).\<close>

lemma move_louse_position:
  "lx (move_louse dt r L) = lx L + lvx (move_louse dt r L) * dt"
  "ly (move_louse dt r L) = ly L + lvy (move_louse dt r L) * dt"
  by (simp_all add: move_louse_def wanderForce_def Let_def split: prod.splits)

text \<open>After every integration step the speed lies in \<open>[speedMin, speedMax]\<close>.\<close>

theorem move_louse_speed:
  assumes "300 \<le> hypot (lvx L) (lvy L)" "\<bar>dt\<bar> \<le> 0.05"
  shows "300 \<le> hypot (lvx (move_louse dt r L)) (lvy (move_louse dt r L)) \<and>
         hypot (lvx (move_louse dt r L)) (lvy (move_louse dt r L)) \<le> 420"
proof -
  obtain L1 wx wy where W: "wanderForce L dt r = (L1, wx, wy)" by (metis prod_cases3)
  have v1: "lvx L1 = lvx L" "lvy L1 = lvy L" using W by (auto simp: wanderForce_def Let_def)
  obtain sx sy where S: "steerToward L1 (exit_x L1) (exit_y L1) (accelMax CFG) = (sx, sy)"
    by (metis surj_pair)
  obtain ax ay where A: "limit (wx + sx * pathBias CFG) (wy + sy * pathBias CFG) (accelMax CFG) = (ax, ay)"
    by (metis surj_pair)
  let ?vx = "lvx L1 * inertia CFG + ax * dt" and ?vy = "lvy L1 * inertia CFG + ay * dt"
  obtain vx' vy' where C: "clamp_speed ?vx ?vy = (vx', vy')" by (metis surj_pair)
  have "hypot ?vx ?vy \<noteq> 0"
    using integrate_nonzero [OF _ steer_accel_bound [OF A] assms(2)] assms(1) v1 by simp
  then have "300 \<le> hypot vx' vy' \<and> hypot vx' vy' \<le> 420"
    using C by (rule clamp_speed_bounds)
  moreover have "lvx (move_louse dt r L) = vx'" "lvy (move_louse dt r L) = vy'"
    using W S A C by (simp_all add: move_louse_def Let_def)
  ultimately show ?thesis by simp
qed

theorem move_louse_speed_witness:
  "let L = (fst (makeLouse 0 0 (sconst 0)))\<lparr>lvx := 300\<rparr> in
   300 \<le> hypot (lvx L) (lvy L) \<and> \<bar>0.05::real\<bar> \<le> 0.05 \<and>
   300 \<le> hypot (lvx (move_louse 0.05 0.5 L)) (lvy (move_louse 0.05 0.5 L)) \<and>
   hypot (lvx (move_louse 0.05 0.5 L)) (lvy (move_louse 0.05 0.5 L)) \<le> 420"
proof -
  let ?L = "(fst (makeLouse 0 0 (sconst 0)))\<lparr>lvx := 300\<rparr>"
  have h: "300 \<le> hypot (lvx ?L) (lvy ?L)"
    by (simp add: makeLouse_def js_random_def)
  have d: "\<bar>0.05::real\<bar> \<le> 0.05" by simp
  from h d move_louse_speed [OF h d, of "0.5"] show ?thesis by (simp only: Let_def)
qed

section \<open>The clamp against its specification\<close>

text \<open>
  C15: the code's clamp (\<open>Math.hypot(vx, vy) || 1\<close>, then a rescale only when the
  clamped speed differs) computes exactly the specified rescale, for every velocity,
  the zero vector included.
\<close>

theorem clamp_speed_rescale: "clamp_speed vx vy = rescale_speed vx vy"
proof (cases "hypot vx vy = 0")
  case True
  then have "vx = 0" "vy = 0" by (simp_all add: hypot_zero_iff)
  then show ?thesis by (simp add: clamp_speed_zero rescale_speed_def)
next
  case False
  then show ?thesis by (simp add: clamp_speed_def rescale_speed_def Let_def)
qed

end
