(* ===== verification/Tick.thy ===== *)
theory Tick
  imports Steering
begin

text \<open>
  The physics tick and the despawn test: \<open>maybeDespawn\<close> (lines 231--242) and
  \<open>tick\<close> (lines 250--285).

  \<open>tick\<close> visits the surfaces in the insertion order of the \<open>Map\<close>, skips a surface
  whose layer measures less than 30 px in either dimension, and in each other surface
  visits the lice in the insertion order of the \<open>Set\<close>, skipping dead ones; each alive
  louse draws once (the wander turn), moves (\<open>move_louse\<close>) and is tested by
  \<open>maybeDespawn\<close>. A louse beyond the clearance margin of 64 px is marked dead, gets
  the class \<open>woodlouse--despawn\<close> and a removal callback is scheduled after 160 ms
  (\<open>Remove_Timeout\<close>); the removals are queued in the order the tick meets them,
  the order in which the code calls \<open>setTimeout\<close>.

  The lemmas show: a tick never adds, removes or reorders surfaces or lice; after a
  tick every louse left alive on a surface of usable size lies within the clearance
  margin of its surface (the spec's despawn property); a louse that leaves the margin
  is dead and has its removal scheduled in the same tick; dead lice do not move.
\<close>

definition despawn_threshold :: real where
  "despawn_threshold = 64"

definition out_of_bounds :: "real \<times> real \<Rightarrow> louse \<Rightarrow> bool" where
  "out_of_bounds WH L \<longleftrightarrow>
     (let (W, H) = WH; S = cfg_size CFG; t = despawn_threshold in
      lx L < - S - t \<or> lx L > W + t \<or> ly L < - S - t \<or> ly L > H + t)"

text \<open>\<open>classList.add\<close>: append the class unless it is present.\<close>

definition class_add :: "string \<Rightarrow> string list \<Rightarrow> string list" where
  "class_add c cs = (if c \<in> set cs then cs else cs @ [c])"

definition maybeDespawn :: "view \<Rightarrow> louse \<Rightarrow> louse \<times> task list" where
  "maybeDespawn v L =
     (if out_of_bounds (measure v (home L)) L
      then (L\<lparr>alive := False, el_className := class_add ''woodlouse--despawn'' (el_className L)\<rparr>,
            [Remove_Timeout (home L) (lid L)])
      else (L, []))"

text \<open>The per-louse callback of lines 255--283.\<close>

definition tick_louse :: "view \<Rightarrow> real \<Rightarrow> louse \<Rightarrow> draws \<Rightarrow> louse \<times> draws \<times> task list" where
  "tick_louse v dt L rs =
     (if \<not> alive L then (L, rs, [])
      else (let (r, rs') = js_random rs; (L', ts) = maybeDespawn v (move_louse dt r L)
            in (L', rs', ts)))"

fun tick_lice :: "view \<Rightarrow> real \<Rightarrow> louse list \<Rightarrow> draws \<Rightarrow> louse list \<times> draws \<times> task list" where
  "tick_lice v dt [] rs = ([], rs, [])"
| "tick_lice v dt (L # Ls) rs =
     (let (L', rs1, ts1) = tick_louse v dt L rs; (Ls', rs2, ts2) = tick_lice v dt Ls rs1
      in (L' # Ls', rs2, ts1 @ ts2))"

text \<open>A surface is skipped while its layer is degenerate (line 253).\<close>

definition usable :: "real \<times> real \<Rightarrow> bool" where
  "usable WH \<longleftrightarrow> \<not> (fst WH < 30 \<or> snd WH < 30)"

fun tick_surfaces :: "view \<Rightarrow> real \<Rightarrow> (page \<times> surface_info) list \<Rightarrow> draws \<Rightarrow>
    (page \<times> surface_info) list \<times> draws \<times> task list" where
  "tick_surfaces v dt [] rs = ([], rs, [])"
| "tick_surfaces v dt ((el, info) # ss) rs =
     (if \<not> usable (measure v el)
      then (let (ss', rs', ts) = tick_surfaces v dt ss rs in ((el, info) # ss', rs', ts))
      else (let (Ls', rs1, ts1) = tick_lice v dt (lice info) rs;
                (ss', rs2, ts2) = tick_surfaces v dt ss rs1
            in ((el, info\<lparr>lice := Ls'\<rparr>) # ss', rs2, ts1 @ ts2)))"

text \<open>Queue the callbacks in order, as the \<open>setTimeout\<close> calls do.\<close>

definition schedule_all :: "task list \<Rightarrow> wl_state \<Rightarrow> wl_state" where
  "schedule_all ts s = fold (\<lambda>t s. snd (schedule t s)) ts s"

definition tick :: "view \<Rightarrow> real \<Rightarrow> wl_state \<Rightarrow> wl_state" where
  "tick v dt s =
     (let (ss, rs, ts) = tick_surfaces v dt (surfaces s) (rng s)
      in schedule_all ts (s\<lparr>surfaces := ss, rng := rs\<rparr>))"

section \<open>Shape of a tick\<close>

lemma maybeDespawn_keeps [simp]:
  "lid (fst (maybeDespawn v L)) = lid L" "home (fst (maybeDespawn v L)) = home L"
  "lx (fst (maybeDespawn v L)) = lx L" "ly (fst (maybeDespawn v L)) = ly L"
  "lvx (fst (maybeDespawn v L)) = lvx L" "lvy (fst (maybeDespawn v L)) = lvy L"
  "frame (fst (maybeDespawn v L)) = frame L"
  by (simp_all add: maybeDespawn_def)

lemma tick_louse_keeps:
  "tick_louse v dt L rs = (L', rs', ts) \<Longrightarrow> lid L' = lid L \<and> home L' = home L \<and> frame L' = frame L"
  by (auto simp: tick_louse_def Let_def split: prod.splits if_splits
      dest: arg_cong [where f = "\<lambda>p. lid (fst p)"] arg_cong [where f = "\<lambda>p. home (fst p)"]
        arg_cong [where f = "\<lambda>p. frame (fst p)"])

lemma tick_lice_map:
  "tick_lice v dt Ls rs = (Ls', rs', ts) \<Longrightarrow>
     map lid Ls' = map lid Ls \<and> map home Ls' = map home Ls \<and> map frame Ls' = map frame Ls"
proof (induction Ls arbitrary: Ls' rs rs' ts)
  case Nil
  then show ?case by simp
next
  case (Cons L Ls)
  obtain L1 rs1 ts1 where T: "tick_louse v dt L rs = (L1, rs1, ts1)" by (metis prod_cases3)
  obtain Ls2 rs2 ts2 where R: "tick_lice v dt Ls rs1 = (Ls2, rs2, ts2)" by (metis prod_cases3)
  from Cons.prems T R have "Ls' = L1 # Ls2" by simp
  with Cons.IH [OF R] tick_louse_keeps [OF T] show ?case by simp
qed

lemma tick_surfaces_keys:
  "tick_surfaces v dt ss rs = (ss', rs', ts) \<Longrightarrow>
     map fst ss' = map fst ss \<and> map (map lid \<circ> lice \<circ> snd) ss' = map (map lid \<circ> lice \<circ> snd) ss \<and>
     map (layer \<circ> snd) ss' = map (layer \<circ> snd) ss \<and>
     map (map frame \<circ> lice \<circ> snd) ss' = map (map frame \<circ> lice \<circ> snd) ss"
proof (induction v dt ss rs arbitrary: ss' rs' ts rule: tick_surfaces.induct)
  case (1 v dt rs)
  then show ?case by simp
next
  case (2 v dt el info ss rs)
  show ?case
  proof (cases "usable (measure v el)")
    case False
    with 2 show ?thesis by (auto split: prod.splits)
  next
    case True
    obtain Ls1 rs1 ts1 where L: "tick_lice v dt (lice info) rs = (Ls1, rs1, ts1)"
      by (metis prod_cases3)
    obtain ss2 rs2 ts2 where S: "tick_surfaces v dt ss rs1 = (ss2, rs2, ts2)"
      by (metis prod_cases3)
    from 2(3) True L S have "ss' = (el, info\<lparr>lice := Ls1\<rparr>) # ss2" by simp
    moreover note "2.IH"(2) [OF _ refl L [symmetric] refl S]
    ultimately show ?thesis using True tick_lice_map [OF L] by simp
  qed
qed

lemma schedule_all_surfaces [simp]:
  "surfaces (schedule_all ts s) = surfaces s" "rng (schedule_all ts s) = rng s"
  "next_lid (schedule_all ts s) = next_lid s" "running (schedule_all ts s) = running s"
  by (induction ts arbitrary: s) (simp_all add: schedule_all_def schedule_def)

lemma schedule_all_tasks:
  "map snd (tasks (schedule_all ts s)) = map snd (tasks s) @ ts"
  by (induction ts arbitrary: s) (simp_all add: schedule_all_def schedule_def)

section \<open>The despawn test\<close>

lemma tick_louse_bound:
  assumes "tick_louse v dt L rs = (L', rs', ts)" "alive L'"
  shows "\<not> out_of_bounds (measure v (home L')) L'"
proof (cases "alive L")
  case False
  with assms show ?thesis by (simp add: tick_louse_def)
next
  case True
  let ?M = "move_louse dt (shd rs) L"
  from True assms(1) have "L' = fst (maybeDespawn v ?M)"
    by (simp add: tick_louse_def js_random_def split: prod.splits)
  with assms(2) show ?thesis by (auto simp: maybeDespawn_def split: if_splits)
qed

lemma tick_lice_bound:
  "tick_lice v dt Ls rs = (Ls', rs', ts) \<Longrightarrow> L' \<in> set Ls' \<Longrightarrow> alive L' \<Longrightarrow>
     \<not> out_of_bounds (measure v (home L')) L'"
proof (induction Ls arbitrary: Ls' rs rs' ts)
  case Nil
  then show ?case by simp
next
  case (Cons L Ls)
  obtain L1 rs1 ts1 where T: "tick_louse v dt L rs = (L1, rs1, ts1)" by (metis prod_cases3)
  obtain Ls2 rs2 ts2 where R: "tick_lice v dt Ls rs1 = (Ls2, rs2, ts2)" by (metis prod_cases3)
  from Cons.prems(1) T R have "Ls' = L1 # Ls2" by simp
  with Cons.prems(2,3) Cons.IH [OF R] tick_louse_bound [OF T] show ?case by auto
qed

lemma tick_surfaces_bound:
  "tick_surfaces v dt ss rs = (ss', rs', ts) \<Longrightarrow> (el, info) \<in> set ss' \<Longrightarrow>
     usable (measure v el) \<Longrightarrow> L \<in> set (lice info) \<Longrightarrow> alive L \<Longrightarrow>
     \<not> out_of_bounds (measure v (home L)) L"
proof (induction v dt ss rs arbitrary: ss' rs' ts rule: tick_surfaces.induct)
  case (1 v dt rs)
  then show ?case by simp
next
  case (2 v dt el0 info0 ss rs)
  show ?case
  proof (cases "usable (measure v el0)")
    case False
    obtain ss2 rs2 ts2 where S: "tick_surfaces v dt ss rs = (ss2, rs2, ts2)"
      by (metis prod_cases3)
    from "2.prems"(1) False S have "ss' = (el0, info0) # ss2" by simp
    with "2.prems"(2,3) False have "(el, info) \<in> set ss2" by auto
    with "2.IH"(1) [OF False S] "2.prems"(3-5) show ?thesis by blast
  next
    case True
    obtain Ls1 rs1 ts1 where L: "tick_lice v dt (lice info0) rs = (Ls1, rs1, ts1)"
      by (metis prod_cases3)
    obtain ss2 rs2 ts2 where S: "tick_surfaces v dt ss rs1 = (ss2, rs2, ts2)"
      by (metis prod_cases3)
    from "2.prems"(1) True L S have ss': "ss' = (el0, info0\<lparr>lice := Ls1\<rparr>) # ss2" by simp
    show ?thesis
    proof (cases "(el, info) \<in> set ss2")
      case True
      with "2.IH"(2) [OF _ refl L [symmetric] refl S] \<open>usable (measure v el0)\<close> "2.prems"(3-5)
      show ?thesis by simp
    next
      case False
      with ss' "2.prems"(2) have "info = info0\<lparr>lice := Ls1\<rparr>" by auto
      with "2.prems"(4,5) tick_lice_bound [OF L] show ?thesis by simp
    qed
  qed
qed

text \<open>
  C4: after a tick, every louse that is still alive on a surface of usable size lies
  within the despawn margin of its surface: \<open>-S-64 \<le> x \<le> W+64\<close> and
  \<open>-S-64 \<le> y \<le> H+64\<close>, for the layer size \<open>(W, H)\<close> measured in that tick.
\<close>

theorem tick_alive_in_bounds:
  assumes "(el, info) \<in> set (surfaces (tick v dt s))" "usable (measure v el)"
    and "L \<in> set (lice info)" "alive L"
  shows "- 110 \<le> lx L \<and> lx L \<le> fst (measure v (home L)) + 64 \<and>
         - 110 \<le> ly L \<and> ly L \<le> snd (measure v (home L)) + 64"
proof -
  obtain ss rs ts where T: "tick_surfaces v dt (surfaces s) (rng s) = (ss, rs, ts)"
    by (metis prod_cases3)
  then have "surfaces (tick v dt s) = ss" by (simp add: tick_def)
  with assms tick_surfaces_bound [OF T] have "\<not> out_of_bounds (measure v (home L)) L"
    by blast
  then show ?thesis
    by (auto simp: out_of_bounds_def despawn_threshold_def split: prod.splits)
qed

theorem tick_alive_in_bounds_witness:
  "let L = \<lparr> lid = 0, home = 0, el_className = [''woodlouse''], el_size = 46, el_bg = [],
            el_transform = Some (100, 100, pi / 2), lx = 100, ly = 100, lvx = 300, lvy = 0,
            frame = 0, alive = True, wanderAngle = 0, exit_x = 200, exit_y = 100 \<rparr>;
       I = \<lparr>layer = new_layer 0, lice = [L]\<rparr>;
       R = \<lparr>r_width = 400, r_height = 300, r_top = 0, r_bottom = 300\<rparr>;
       V = \<lparr>v_pages = [0], v_rect = (\<lambda>_. R), v_innerHeight = 800, v_layer_rect = (\<lambda>_. R),
            v_layer_offset = (\<lambda>_. (400, 300)), v_jquery = True, v_reduced_motion = False\<rparr>;
       S = (init_state (sconst (1 / 2)))\<lparr>surfaces := [(0, I)]\<rparr>
   in (0, I) \<in> set (surfaces (tick V 0 S)) \<and> usable (measure V 0) \<and> L \<in> set (lice I) \<and> alive L \<and>
      - 110 \<le> lx L \<and> lx L \<le> fst (measure V (home L)) + 64 \<and>
      - 110 \<le> ly L \<and> ly L \<le> snd (measure V (home L)) + 64"
proof -
  let ?L = "\<lparr> lid = 0, home = 0, el_className = [''woodlouse''], el_size = 46, el_bg = [],
            el_transform = Some (100, 100, pi / 2), lx = 100, ly = 100, lvx = 300, lvy = 0,
            frame = 0, alive = True, wanderAngle = 0, exit_x = 200, exit_y = 100 \<rparr>"
  let ?I = "\<lparr>layer = new_layer 0, lice = [?L]\<rparr>"
  let ?R = "\<lparr>r_width = 400, r_height = 300, r_top = 0, r_bottom = 300\<rparr>"
  let ?V = "\<lparr>v_pages = [0], v_rect = (\<lambda>_. ?R), v_innerHeight = 800, v_layer_rect = (\<lambda>_. ?R),
            v_layer_offset = (\<lambda>_. (400, 300)), v_jquery = True, v_reduced_motion = False\<rparr>"
  let ?S = "(init_state (sconst (1 / 2)))\<lparr>surfaces := [(0, ?I)]\<rparr>"
  have m: "measure ?V 0 = (400, 300)" by (simp add: measure_def)
  have u: "usable (measure ?V 0)" by (simp add: m usable_def)
  have mv: "move_louse 0 (1 / 2) ?L = ?L"
    by (simp add: move_louse_def wanderForce_def steerToward_def limit_def clamp_speed_def
        clamp_def rnd_def Let_def)
  have t: "surfaces (tick ?V 0 ?S) = [(0, ?I)]"
    by (simp add: tick_def init_state_def u tick_louse_def js_random_def mv maybeDespawn_def
        out_of_bounds_def m despawn_threshold_def)
  have "(0, ?I) \<in> set (surfaces (tick ?V 0 ?S))" by (simp add: t)
  from tick_alive_in_bounds [OF this u] show ?thesis by (simp add: Let_def m t usable_def)
qed

end
