(* ===== verification/System.thy ===== *)
theory System
  imports Loop
begin

text \<open>
  The Bootstrap / Event Binder (\<open>bindFlipbookEvents\<close>, \<open>start\<close>, the
  \<open>window.woodlouse\<close> API, lines 302--332) and the whole program as a step
  function over the events the host delivers.

  \<open>start\<close> is cut at its \<open>await\<close>: the first part sets \<open>$flip\<close> and starts the image
  preload, whose completion (or failure: \<open>onerror\<close> also resolves, lines 41--44)
  resumes it as the task \<open>Start_Resume\<close>; the rest refreshes the layers, binds the
  listeners, schedules the first burst (600 ms) and the repeating burst, and starts the
  frame loop only when the reduced-motion preference is off.

  An \<open>event\<close> is what the host can do next: dispatch a DOM event to the listeners
  registered at that moment (listeners added during a dispatch are not called, as in the
  DOM), fire a pending timer or animation frame (one-shot tasks leave the queue first,
  intervals stay), call the API, or mutate the DOM behind the script's back (Turn.js
  moving a layer). The view of the DOM is an argument of every step, so the page may
  change arbitrarily between two events. Which timer fires next is the host's choice:
  the model allows every interleaving.
\<close>

text \<open>\<open>bindFlipbookEvents\<close> (lines 303--312). \<open>window.addEventListener("resize",
  ensureLayersOnVisiblePages)\<close> registers the same function each time, and the DOM ignores
  a listener already registered for the same type: a second call adds none. jQuery's
  \<open>.on\<close> does add a handler on every call, and \<open>setInterval\<close> a new interval.\<close>

definition bindFlipbookEvents :: "wl_state \<Rightarrow> wl_state" where
  "bindFlipbookEvents s =
     (let s1 = (if On_Resize \<in> set (listeners s) then s else s\<lparr>listeners := listeners s @ [On_Resize]\<rparr>)
      in if flip s then s1\<lparr>listeners := listeners s1 @ [On_Turning, On_Turned]\<rparr>
         else snd (schedule Poll_Interval s1))"

definition start :: "view \<Rightarrow> wl_state \<Rightarrow> wl_state" where
  "start v s = snd (schedule Start_Resume (s\<lparr>flip := v_jquery v\<rparr>))"

definition start_resume :: "view \<Rightarrow> wl_state \<Rightarrow> wl_state" where
  "start_resume v s0 =
     (let s1 = bindFlipbookEvents (snd (ensureLayersOnVisiblePages v s0));
          s2 = snd (schedule Burst_Timeout s1);
          (tid, s3) = schedule Burst_Interval s2;
          s4 = s3\<lparr>spawnTimerId := Some tid, running := \<not> v_reduced_motion v\<rparr>
      in if running s4 then snd (schedule Frame_Request s4) else s4)"

definition run_task :: "view \<Rightarrow> real \<Rightarrow> task \<Rightarrow> wl_state \<Rightarrow> wl_state" where
  "run_task v ts t s =
     (case t of
        Start_Resume \<Rightarrow> start_resume v s
      | Burst_Timeout \<Rightarrow> spawnBurst v s
      | Burst_Interval \<Rightarrow> spawnBurst v s
      | Poll_Interval \<Rightarrow> snd (ensureLayersOnVisiblePages v s)
      | Remove_Timeout el i \<Rightarrow> remove_louse el i s
      | Frame_Request \<Rightarrow> loop v ts s)"

definition is_interval :: "task \<Rightarrow> bool" where
  "is_interval t \<longleftrightarrow> t = Burst_Interval \<or> t = Poll_Interval"

definition fire :: "view \<Rightarrow> nat \<Rightarrow> real \<Rightarrow> wl_state \<Rightarrow> wl_state" where
  "fire v i ts s =
     (case map_of (tasks s) i of
        None \<Rightarrow> s
      | Some t \<Rightarrow>
          run_task v ts t (if is_interval t then s else s\<lparr>tasks := filter (\<lambda>(j, _). j \<noteq> i) (tasks s)\<rparr>))"

definition handler :: "view \<Rightarrow> listener \<Rightarrow> wl_state \<Rightarrow> wl_state" where
  "handler v l s =
     (case l of
        On_DOMContentLoaded \<Rightarrow> start v s
      | On_Resize \<Rightarrow> snd (ensureLayersOnVisiblePages v s)
      | On_Turning \<Rightarrow> s
      | On_Turned \<Rightarrow> snd (ensureLayersOnVisiblePages v s))"

definition dispatch :: "view \<Rightarrow> listener \<Rightarrow> wl_state \<Rightarrow> wl_state" where
  "dispatch v l s = fold (\<lambda>l' s. if l' = l then handler v l s else s) (listeners s) s"

definition detach :: "page \<Rightarrow> page option \<Rightarrow> wl_state \<Rightarrow> wl_state" where
  "detach el p s =
     (case map_of (surfaces s) el of
        None \<Rightarrow> s
      | Some info \<Rightarrow>
          s\<lparr>surfaces := AList.update el (info\<lparr>layer := (layer info)\<lparr>layer_parent := p\<rparr>\<rparr>) (surfaces s)\<rparr>)"

datatype event =
    DOMContentLoaded
  | Resize
  | Turning
  | Turned
  | Timer nat real \<comment> \<open>the host fires the task with this id; a frame gets this timestamp\<close>
  | Api_Start \<comment> \<open>\<open>window.woodlouse.start()\<close>\<close>
  | Api_Burst \<comment> \<open>\<open>window.woodlouse.burst()\<close>\<close>
  | Reparent page "page option" \<comment> \<open>the DOM moves the layer of a page\<close>

definition step :: "view \<Rightarrow> event \<Rightarrow> wl_state \<Rightarrow> wl_state" where
  "step v e s =
     (case e of
        DOMContentLoaded \<Rightarrow> dispatch v On_DOMContentLoaded s
      | Resize \<Rightarrow> dispatch v On_Resize s
      | Turning \<Rightarrow> dispatch v On_Turning s
      | Turned \<Rightarrow> dispatch v On_Turned s
      | Timer i ts \<Rightarrow> fire v i ts s
      | Api_Start \<Rightarrow> start v s
      | Api_Burst \<Rightarrow> spawnBurst v s
      | Reparent el p \<Rightarrow> detach el p s)"

text \<open>
  The host's timestamps for animation frames never go back: a frame fires at a time
  no earlier than the last one the loop saw.
\<close>

definition host_ok :: "wl_state \<Rightarrow> event \<Rightarrow> bool" where
  "host_ok s e \<longleftrightarrow>
     (case e of Timer i ts \<Rightarrow> map_of (tasks s) i = Some Frame_Request \<longrightarrow> lastT s \<le> ts | _ \<Rightarrow> True)"

inductive reachable :: "wl_state \<Rightarrow> bool" where
  init: "valid_draws rs \<Longrightarrow> reachable (init_state rs)"
| step: "reachable s \<Longrightarrow> host_ok s e \<Longrightarrow> reachable (step v e s)"

fun run :: "(view \<times> event) list \<Rightarrow> wl_state \<Rightarrow> wl_state" where
  "run [] s = s"
| "run ((v, e) # es) s = run es (step v e s)"

end
