(* ===== verification/Invariant.thy ===== *)
theory Invariant
  imports System
begin

text \<open>
  The invariant of the whole program and its preservation by every operation.

  \<open>wl_inv\<close> holds of every reachable state: the draws still to come are in
  \<open>[0, 1)\<close>; the registry has one entry per page; no surface exceeds its capacity;
  every louse sits in the surface it names as \<open>surfaceInfo\<close> and moves at a speed in
  \<open>[speedMin, speedMax]\<close>; timer ids are distinct and below the next id; every dead
  louse still registered has its removal callback pending. Each operation keeps it, one
  lemma per operation, in the order of the code's call graph (registry, spawning,
  physics, animation, removal, bootstrap, events); \<open>reachable_wl_inv\<close> then follows by
  rule induction over the reachable states.
\<close>

definition speed_ok :: "louse \<Rightarrow> bool" where
  "speed_ok L \<longleftrightarrow> 300 \<le> hypot (lvx L) (lvy L) \<and> hypot (lvx L) (lvy L) \<le> 420"

definition lice_ok :: "(page \<times> surface_info) list \<Rightarrow> bool" where
  "lice_ok ss \<longleftrightarrow> (\<forall>(el, info) \<in> set ss. \<forall>L \<in> set (lice info). home L = el \<and> speed_ok L)"

definition timers_ok :: "wl_state \<Rightarrow> bool" where
  "timers_ok s \<longleftrightarrow> distinct (map fst (tasks s)) \<and> (\<forall>p \<in> set (tasks s). fst p < next_timer s)"

definition dead_scheduled :: "wl_state \<Rightarrow> bool" where
  "dead_scheduled s \<longleftrightarrow>
     (\<forall>(el, info) \<in> set (surfaces s). \<forall>L \<in> set (lice info).
        \<not> alive L \<longrightarrow> Remove_Timeout el (lid L) \<in> snd ` set (tasks s))"

text \<open>What a tick does to one louse, given the removals it schedules.\<close>

definition tick_rel :: "task set \<Rightarrow> louse \<Rightarrow> louse \<Rightarrow> bool" where
  "tick_rel T L L' \<longleftrightarrow> lid L' = lid L \<and> home L' = home L \<and> (speed_ok L \<longrightarrow> speed_ok L') \<and>
     (\<not> alive L' \<longrightarrow> \<not> alive L \<or> Remove_Timeout (home L) (lid L) \<in> T)"

definition surface_rel :: "task set \<Rightarrow> page \<times> surface_info \<Rightarrow> page \<times> surface_info \<Rightarrow> bool" where
  "surface_rel T p p' \<longleftrightarrow> fst p' = fst p \<and> list_all2 (tick_rel T) (lice (snd p)) (lice (snd p'))"

definition wl_inv :: "wl_state \<Rightarrow> bool" where
  "wl_inv s \<longleftrightarrow> valid_draws (rng s) \<and> distinct (map fst (surfaces s)) \<and> within_capacity s \<and>
     lice_ok (surfaces s) \<and> timers_ok s \<and> dead_scheduled s"

section \<open>Frame rules\<close>

lemma wl_inv_cong:
  "rng s' = rng s \<Longrightarrow> surfaces s' = surfaces s \<Longrightarrow> tasks s' = tasks s \<Longrightarrow>
     next_timer s' = next_timer s \<Longrightarrow> wl_inv s' = wl_inv s"
  by (simp add: wl_inv_def within_capacity_def timers_ok_def dead_scheduled_def)

lemma wl_inv_congI:
  "wl_inv s \<Longrightarrow> rng s' = rng s \<Longrightarrow> surfaces s' = surfaces s \<Longrightarrow> tasks s' = tasks s \<Longrightarrow>
     next_timer s' = next_timer s \<Longrightarrow> wl_inv s'"
  using wl_inv_cong by blast

lemma wl_inv_init: "valid_draws rs \<Longrightarrow> wl_inv (init_state rs)"
  by (simp add: wl_inv_def init_state_def within_capacity_def lice_ok_def timers_ok_def
      dead_scheduled_def)

lemma timers_ok_schedule: "timers_ok s \<Longrightarrow> timers_ok (snd (schedule t s))"
  by (auto simp: timers_ok_def schedule_def)

lemma wl_inv_schedule: "wl_inv s \<Longrightarrow> wl_inv (snd (schedule t s))"
  by (auto simp: wl_inv_def schedule_def within_capacity_def dead_scheduled_def
      timers_ok_schedule [unfolded schedule_def, simplified])

lemma wl_inv_schedule_all: "wl_inv s \<Longrightarrow> wl_inv (schedule_all ts s)"
  by (induction ts arbitrary: s) (simp_all add: schedule_all_def wl_inv_schedule)

lemma timers_ok_schedule_all: "timers_ok s \<Longrightarrow> timers_ok (schedule_all ts s)"
  by (induction ts arbitrary: s) (simp_all add: schedule_all_def timers_ok_schedule)

section \<open>Registry\<close>

lemma lice_ok_update:
  "lice_ok ss \<Longrightarrow> \<forall>L \<in> set (lice info). home L = el \<and> speed_ok L \<Longrightarrow> lice_ok (AList.update el info ss)"
  by (auto simp: lice_ok_def dest!: in_set_update)

lemma wl_inv_ensure_one: "wl_inv s \<Longrightarrow> wl_inv (ensure_one el s)"
proof -
  assume I: "wl_inv s"
  have "lice_ok (surfaces (ensure_one el s))"
    using I by (auto simp: wl_inv_def ensure_one_def lice_ok_def dest!: map_of_SomeD in_set_update
        split: option.splits)
  moreover have "dead_scheduled (ensure_one el s)"
    using I by (auto simp: wl_inv_def ensure_one_def dead_scheduled_def dest!: map_of_SomeD in_set_update
        split: option.splits)
  moreover have "timers_ok (ensure_one el s)"
    using I by (simp add: wl_inv_def timers_ok_def)
  ultimately show ?thesis
    using I by (simp add: wl_inv_def ensure_one_distinct ensure_one_capacity)
qed

lemma wl_inv_fold_ensure: "wl_inv s \<Longrightarrow> wl_inv (fold ensure_one vis s)"
  by (induction vis arbitrary: s) (simp_all add: wl_inv_ensure_one)

lemma wl_inv_ensureLayers: "wl_inv s \<Longrightarrow> wl_inv (snd (ensureLayersOnVisiblePages v s))"
  by (simp add: ensureLayersOnVisiblePages_def Let_def wl_inv_fold_ensure)

lemma dead_scheduled_update:
  assumes D: "dead_scheduled s" and info: "map_of (surfaces s) el = Some info"
    and sub: "\<forall>L \<in> set (lice info'). \<not> alive L \<longrightarrow> L \<in> set (lice info)"
    and S: "surfaces s' = AList.update el info' (surfaces s)"
    and T: "snd ` set (tasks s) \<subseteq> snd ` set (tasks s')"
  shows "dead_scheduled s'"
proof -
  have el_in: "(el, info) \<in> set (surfaces s)" using info by (rule map_of_SomeD)
  have "Remove_Timeout el' (lid L) \<in> snd ` set (tasks s)"
    if p: "(el', i) \<in> set (surfaces s')" and L: "L \<in> set (lice i)" and d: "\<not> alive L" for el' i L
  proof -
    from p S have "(el', i) = (el, info') \<or> (el', i) \<in> set (surfaces s)"
      by (metis in_set_update)
    then show ?thesis
    proof
      assume "(el', i) = (el, info')"
      with L d sub have "el' = el" "L \<in> set (lice info)" by auto
      with D el_in d show ?thesis by (auto simp: dead_scheduled_def)
    next
      assume "(el', i) \<in> set (surfaces s)"
      with D L d show ?thesis by (auto simp: dead_scheduled_def)
    qed
  qed
  with T show ?thesis by (auto simp: dead_scheduled_def)
qed

section \<open>Spawning\<close>

lemma wl_inv_spawnOneOn: "wl_inv s \<Longrightarrow> wl_inv (snd (spawnOneOn v el s))"
proof -
  assume I: "wl_inv s"
  obtain r s' where S: "spawnOneOn v el s = (r, s')" by (metis surj_pair)
  show ?thesis
  proof (cases r)
    case None
    with S have "s' = s" by (metis spawnOneOn_None)
    with S I show ?thesis by simp
  next
    case (Some L)
    with S have "spawnOneOn v el s = (Some L, s')" by simp
    from spawnOneOn_Some [OF this] obtain info rs' where
      info: "map_of (surfaces s) el = Some info" and
      C: "(L, rs') = configureRoute (fst (makeLouse el (next_lid s) (rng s)))
                  (fst (measure v el)) (snd (measure v el)) (snd (makeLouse el (next_lid s) (rng s)))" and
      s': "s' = s\<lparr>surfaces := AList.update el (info\<lparr>lice := lice info @ [L]\<rparr>) (surfaces s),
            rng := rs', next_lid := Suc (next_lid s)\<rparr>"
      by blast
    obtain L0 rs0 where M: "makeLouse el (next_lid s) (rng s) = (L0, rs0)" by (metis surj_pair)
    have L0: "home L0 = el \<and> alive L0 \<and> rs0 = stl (rng s)" using makeLouse_fields [OF M] by simp
    have v0: "valid_draws rs0" using I L0 by (simp add: wl_inv_def valid_draws_stl)
    have C': "configureRoute L0 (fst (measure v el)) (snd (measure v el)) rs0 = (L, rs')"
      using C M by simp
    have "home L = el \<and> alive L" using configureRoute_keeps [OF C'] L0 by simp
    moreover have "speed_ok L" using configureRoute_velocity(2) [OF v0 C'] by (simp add: speed_ok_def)
    moreover have "valid_draws rs'" using configureRoute_valid [OF v0] C' by (metis snd_conv)
    have el_in: "(el, info) \<in> set (surfaces s)" using info by (rule map_of_SomeD)
    have new_lice: "\<forall>L' \<in> set (lice (info\<lparr>lice := lice info @ [L]\<rparr>)). home L' = el \<and> speed_ok L'"
      using I el_in \<open>home L = el \<and> alive L\<close> \<open>speed_ok L\<close>
      by (auto simp: wl_inv_def lice_ok_def)
    have lo: "lice_ok (surfaces s')"
      using I new_lice by (simp add: s' wl_inv_def lice_ok_update)
    have dead: "\<forall>L' \<in> set (lice (info\<lparr>lice := lice info @ [L]\<rparr>)). \<not> alive L' \<longrightarrow> L' \<in> set (lice info)"
      using \<open>home L = el \<and> alive L\<close> by auto
    have ds: "dead_scheduled s'"
      using dead_scheduled_update [OF _ info dead] I by (simp add: s' wl_inv_def)
    have cap: "within_capacity s'"
      using spawnOneOn_capacity [OF _ S] I by (simp add: wl_inv_def)
    have tm: "timers_ok s'" using I by (simp add: s' wl_inv_def timers_ok_def)
    have "wl_inv s'"
      using I lo ds cap tm \<open>valid_draws rs'\<close> by (simp add: s' wl_inv_def distinct_update)
    with S show ?thesis by simp
  qed
qed

lemma wl_inv_spawn_pass: "wl_inv s \<Longrightarrow> wl_inv (snd (spawn_pass v els n s))"
proof (induction els arbitrary: n s)
  case Nil
  then show ?case by simp
next
  case (Cons el els)
  obtain r s1 where S: "spawnOneOn v el s = (r, s1)" by (metis surj_pair)
  have "wl_inv s1" using wl_inv_spawnOneOn [OF Cons.prems, of v el] S by simp
  with Cons.IH Cons.prems S show ?case by (cases r) auto
qed

lemma shuffle_draws: "shuffle vis rs = (sh, rs') \<Longrightarrow> rs' = rs \<or> rs' = stl rs"
  by (auto simp: shuffle_def split: list.splits if_splits)

lemma wl_inv_rng: "wl_inv s \<Longrightarrow> valid_draws rs \<Longrightarrow> wl_inv (s\<lparr>rng := rs\<rparr>)"
  by (simp add: wl_inv_def within_capacity_def timers_ok_def dead_scheduled_def)

lemma wl_inv_spawnBurst: "wl_inv s \<Longrightarrow> wl_inv (spawnBurst v s)"
proof -
  assume I: "wl_inv s"
  let ?s1 = "fold ensure_one (getVisiblePages v) s"
  have I1: "wl_inv ?s1" using I by (rule wl_inv_fold_ensure)
  obtain sh rs where Sh: "shuffle (getVisiblePages v) (rng ?s1) = (sh, rs)" by (metis surj_pair)
  have "valid_draws rs" using shuffle_draws [OF Sh] I1 by (auto simp: wl_inv_def)
  then have I2: "wl_inv (?s1\<lparr>rng := rs\<rparr>)" using I1 by (rule wl_inv_rng [rotated])
  obtain n2 s2 where P1: "spawn_pass v sh (burstSize CFG) (?s1\<lparr>rng := rs\<rparr>) = (n2, s2)"
    by (metis surj_pair)
  have I3: "wl_inv s2" using wl_inv_spawn_pass [OF I2, of v sh "burstSize CFG"] P1 by simp
  have I4: "wl_inv (snd (spawn_pass v sh n2 s2))" using I3 by (rule wl_inv_spawn_pass)
  show ?thesis
    using I1 I3 I4 Sh P1
    by (auto simp: spawnBurst_def ensureLayersOnVisiblePages_def Let_def split: prod.splits)
qed

section \<open>Physics\<close>

lemma tick_rel_mono: "tick_rel T L L' \<Longrightarrow> T \<subseteq> T' \<Longrightarrow> tick_rel T' L L'"
  by (auto simp: tick_rel_def)

lemma tick_rel_refl: "tick_rel T L L"
  by (simp add: tick_rel_def)

lemma tick_louse_rel:
  assumes dt: "\<bar>dt\<bar> \<le> 0.05" and T: "tick_louse v dt L rs = (L', rs', ts)"
  shows "tick_rel (set ts) L L' \<and> (rs' = rs \<or> rs' = stl rs)"
proof (cases "alive L")
  case False
  with T show ?thesis by (simp add: tick_louse_def tick_rel_refl)
next
  case True
  let ?M = "move_louse dt (shd rs) L"
  from True T have L': "L' = fst (maybeDespawn v ?M)" and ts: "ts = snd (maybeDespawn v ?M)"
      and rs': "rs' = stl rs"
    by (auto simp: tick_louse_def js_random_def split: prod.splits)
  have "speed_ok L \<longrightarrow> speed_ok L'"
    using move_louse_speed [OF _ dt] by (simp add: L' speed_ok_def)
  moreover have "\<not> alive L' \<longrightarrow> Remove_Timeout (home L) (lid L) \<in> set ts"
    using True by (simp add: L' ts maybeDespawn_def)
  ultimately show ?thesis by (simp add: tick_rel_def L' rs')
qed

lemma tick_lice_rel:
  "\<bar>dt\<bar> \<le> 0.05 \<Longrightarrow> tick_lice v dt Ls rs = (Ls', rs', ts) \<Longrightarrow>
     list_all2 (tick_rel (set ts)) Ls Ls' \<and> (valid_draws rs \<longrightarrow> valid_draws rs')"
proof (induction Ls arbitrary: Ls' rs rs' ts)
  case Nil
  then show ?case by simp
next
  case (Cons L Ls)
  obtain L1 rs1 ts1 where T: "tick_louse v dt L rs = (L1, rs1, ts1)" by (metis prod_cases3)
  obtain Ls2 rs2 ts2 where R: "tick_lice v dt Ls rs1 = (Ls2, rs2, ts2)" by (metis prod_cases3)
  from Cons.prems(2) T R have eq: "Ls' = L1 # Ls2" "rs' = rs2" "ts = ts1 @ ts2" by auto
  have h1: "tick_rel (set ts1) L L1" "rs1 = rs \<or> rs1 = stl rs"
    using tick_louse_rel [OF Cons.prems(1) T] by auto
  have h2: "list_all2 (tick_rel (set ts2)) Ls Ls2" "valid_draws rs1 \<longrightarrow> valid_draws rs2"
    using Cons.IH [OF Cons.prems(1) R] by auto
  have "tick_rel (set ts) L L1" using tick_rel_mono [OF h1(1)] by (simp add: eq)
  moreover have "list_all2 (tick_rel (set ts)) Ls Ls2"
    using h2(1) by (rule list_all2_mono) (auto simp: eq intro: tick_rel_mono)
  moreover have "valid_draws rs \<longrightarrow> valid_draws rs'"
    using h1(2) h2(2) by (auto simp: eq)
  ultimately show ?case by (simp add: eq)
qed

lemma tick_surfaces_rel:
  "\<bar>dt\<bar> \<le> 0.05 \<Longrightarrow> tick_surfaces v dt ss rs = (ss', rs', ts) \<Longrightarrow>
     list_all2 (surface_rel (set ts)) ss ss' \<and> (valid_draws rs \<longrightarrow> valid_draws rs')"
proof (induction v dt ss rs arbitrary: ss' rs' ts rule: tick_surfaces.induct)
  case (1 v dt rs)
  then show ?case by simp
next
  case (2 v dt el info ss rs)
  show ?case
  proof (cases "usable (measure v el)")
    case False
    obtain ss2 rs2 ts2 where S: "tick_surfaces v dt ss rs = (ss2, rs2, ts2)"
      by (metis prod_cases3)
    from "2.prems"(2) False S have eq: "ss' = (el, info) # ss2" "rs' = rs2" "ts = ts2" by auto
    have "surface_rel (set ts) (el, info) (el, info)"
      by (simp add: surface_rel_def list_all2_refl tick_rel_refl)
    with "2.IH"(1) [OF False "2.prems"(1) S] show ?thesis by (simp add: eq)
  next
    case True
    obtain Ls1 rs1 ts1 where L: "tick_lice v dt (lice info) rs = (Ls1, rs1, ts1)"
      by (metis prod_cases3)
    obtain ss2 rs2 ts2 where S: "tick_surfaces v dt ss rs1 = (ss2, rs2, ts2)"
      by (metis prod_cases3)
    from "2.prems"(2) True L S have eq: "ss' = (el, info\<lparr>lice := Ls1\<rparr>) # ss2" "rs' = rs2"
        "ts = ts1 @ ts2" by auto
    have h1: "list_all2 (tick_rel (set ts1)) (lice info) Ls1" "valid_draws rs \<longrightarrow> valid_draws rs1"
      using tick_lice_rel [OF "2.prems"(1) L] by auto
    have h2: "list_all2 (surface_rel (set ts2)) ss ss2" "valid_draws rs1 \<longrightarrow> valid_draws rs2"
      using "2.IH"(2) [OF _ refl L [symmetric] refl "2.prems"(1) S] True by auto
    have "surface_rel (set ts) (el, info) (el, info\<lparr>lice := Ls1\<rparr>)"
      using h1(1) by (auto simp: surface_rel_def eq elim: list_all2_mono intro: tick_rel_mono)
    moreover have "list_all2 (surface_rel (set ts)) ss ss2"
      using h2(1) by (rule list_all2_mono) (auto simp: surface_rel_def eq elim: list_all2_mono
          intro: tick_rel_mono)
    ultimately show ?thesis using h1(2) h2(2) by (simp add: eq)
  qed
qed

lemma wl_inv_tick:
  assumes I: "wl_inv s" and dt: "\<bar>dt\<bar> \<le> 0.05"
  shows "wl_inv (tick v dt s)"
proof -
  obtain ss rs ts where T: "tick_surfaces v dt (surfaces s) (rng s) = (ss, rs, ts)"
    by (metis prod_cases3)
  have R: "list_all2 (surface_rel (set ts)) (surfaces s) ss" and V: "valid_draws rs"
    using tick_surfaces_rel [OF dt T] I by (auto simp: wl_inv_def)
  let ?s1 = "s\<lparr>surfaces := ss, rng := rs\<rparr>"
  have eq: "tick v dt s = schedule_all ts ?s1" by (simp add: tick_def T)
  have tasks: "snd ` set (tasks (tick v dt s)) = snd ` set (tasks s) \<union> set ts"
    using schedule_all_tasks [of ts ?s1] by (simp add: eq flip: set_map)
  have corr: "\<exists>info. (el, info) \<in> set (surfaces s) \<and> list_all2 (tick_rel (set ts)) (lice info) (lice info')"
    if "(el, info') \<in> set ss" for el info'
    using list_all2_in_set2 [OF R that] by (auto simp: surface_rel_def)
  have keys: "map fst ss = map fst (surfaces s)"
    using R by (rule list_all2_map_eq) (simp add: surface_rel_def)
  have cap: "within_capacity ?s1"
    using I corr by (fastforce simp: wl_inv_def within_capacity_def dest: list_all2_lengthD)
  have lo: "lice_ok ss"
  proof -
    have "home L' = el \<and> speed_ok L'" if a: "(el, info') \<in> set ss" "L' \<in> set (lice info')" for el info' L'
    proof -
      obtain info where i: "(el, info) \<in> set (surfaces s)" "list_all2 (tick_rel (set ts)) (lice info) (lice info')"
        using corr [OF a(1)] by blast
      obtain L where "L \<in> set (lice info)" "tick_rel (set ts) L L'"
        using list_all2_in_set2 [OF i(2) a(2)] by blast
      with i(1) I show ?thesis by (auto simp: wl_inv_def lice_ok_def tick_rel_def)
    qed
    then show ?thesis by (auto simp: lice_ok_def)
  qed
  have ds: "dead_scheduled (tick v dt s)"
  proof -
    have "Remove_Timeout el (lid L') \<in> snd ` set (tasks (tick v dt s))"
      if a: "(el, info') \<in> set ss" "L' \<in> set (lice info')" "\<not> alive L'" for el info' L'
    proof -
      obtain info where i: "(el, info) \<in> set (surfaces s)" "list_all2 (tick_rel (set ts)) (lice info) (lice info')"
        using corr [OF a(1)] by blast
      obtain L where L: "L \<in> set (lice info)" "tick_rel (set ts) L L'"
        using list_all2_in_set2 [OF i(2) a(2)] by blast
      have "home L = el" using i(1) L(1) I by (auto simp: wl_inv_def lice_ok_def)
      with L(2) a(3) have "\<not> alive L \<or> Remove_Timeout el (lid L') \<in> set ts"
        by (auto simp: tick_rel_def)
      moreover have "\<not> alive L \<Longrightarrow> Remove_Timeout el (lid L') \<in> snd ` set (tasks s)"
        using I i(1) L by (auto simp: wl_inv_def dead_scheduled_def tick_rel_def)
      ultimately show ?thesis by (auto simp: tasks)
    qed
    then show ?thesis by (auto simp: dead_scheduled_def eq)
  qed
  have "timers_ok (tick v dt s)"
    using I timers_ok_schedule_all [of ?s1 ts] by (simp add: eq wl_inv_def timers_ok_def)
  then show ?thesis
    using I V keys cap lo ds by (simp add: wl_inv_def eq within_capacity_def)
qed

end
