(* ===== verification/Reach.thy ===== *)
theory Reach
  imports Invariant
begin

text \<open>
  Preservation of \<open>wl_inv\<close> by the frame loop, the removal callback, the DOM mutation
  of a page move, the bootstrap and the event dispatcher, and by every \<open>step\<close> of
  the host. \<open>reachable_wl_inv\<close> closes the rule induction: every reachable state
  satisfies the invariant, whatever the order in which the host fires timers, frames and
  DOM events and whatever the page looks like at each step (the view is chosen afresh
  for every event). The only assumption on the host is \<open>host_ok\<close>: animation-frame
  timestamps do not go back.

  A one-shot timer leaves the queue before its callback runs; the removal callback of a
  dead louse deletes exactly that louse, so every other dead louse keeps its own
  pending removal.
\<close>
text \<open>
  A concrete run for the witnesses: one page of 1000 px square, all draws \<open>1/2\<close>. A
  burst places two lice on the left edge at \<open>y = 477\<close> heading right at 360 px/s. In
  \<open>demo_run\<close> the script starts, resumes after the preload, bursts, and its first animation
  frame comes after the layer has shrunk to 30 px, so both lice are out of bounds and
  despawn.
\<close>

abbreviation demo_view :: "real \<Rightarrow> view" where
  "demo_view w \<equiv> \<lparr>v_pages = [0], v_rect = (\<lambda>_. \<lparr>r_width = w, r_height = w, r_top = 0, r_bottom = w\<rparr>),
     v_innerHeight = 2000, v_layer_rect = (\<lambda>_. \<lparr>r_width = w, r_height = w, r_top = 0, r_bottom = w\<rparr>),
     v_layer_offset = (\<lambda>_. (w, w)), v_jquery = True, v_reduced_motion = False\<rparr>"

abbreviation demo_burst :: wl_state where
  "demo_burst \<equiv> step (demo_view 1000) Api_Burst (init_state (sconst (1 / 2)))"

abbreviation demo_run :: wl_state where
  "demo_run \<equiv> run [(demo_view 1000, Api_Start), (demo_view 1000, Timer 0 0), (demo_view 1000, Api_Burst),
     (demo_view 30, Timer 3 1000)] (init_state (sconst (1 / 2)))"

section \<open>Animation and the frame loop\<close>

lemma wl_inv_step_all_frames: "wl_inv s \<Longrightarrow> wl_inv (step_all_frames s)"
  by (auto simp: wl_inv_def step_all_frames_def within_capacity_def lice_ok_def speed_ok_def
      dead_scheduled_def timers_ok_def comp_def case_prod_beta)

lemma wl_inv_loop:
  assumes I: "wl_inv s" and ts: "lastT s \<le> ts"
  shows "wl_inv (loop v ts s)"
proof (cases "running s")
  case False
  with I show ?thesis by (simp add: loop_def)
next
  case True
  define lastT0 where "lastT0 = (if lastT s = 0 then ts else lastT s)"
  define dt where "dt = frame_dt lastT0 ts"
  define s1 where "s1 = s\<lparr>lastT := ts, frameClock := frameClock s + dt * 1000\<rparr>"
  define s2 where "s2 = (if frameMs CFG \<le> frameClock s1 then (step_all_frames s1)\<lparr>frameClock := 0\<rparr> else s1)"
  have "lastT0 \<le> ts" using ts by (simp add: lastT0_def)
  then have dt: "\<bar>dt\<bar> \<le> 0.05" unfolding dt_def by (rule frame_dt_abs)
  have I1: "wl_inv s1" by (rule wl_inv_congI [OF I]) (simp_all add: s1_def)
  have "wl_inv (step_all_frames s1)" using I1 by (rule wl_inv_step_all_frames)
  then have "wl_inv ((step_all_frames s1)\<lparr>frameClock := 0\<rparr>)" by (rule wl_inv_congI) simp_all
  then have I2: "wl_inv s2" using I1 by (simp add: s2_def)
  have "wl_inv (tick v dt s2)" using I2 dt by (rule wl_inv_tick)
  then have "wl_inv (snd (schedule Frame_Request (tick v dt s2)))" by (rule wl_inv_schedule)
  moreover have "loop v ts s = snd (schedule Frame_Request (tick v dt s2))"
    using True unfolding loop_def Let_def s2_def s1_def dt_def lastT0_def by simp
  ultimately show ?thesis by simp
qed
section \<open>Removal and DOM mutation\<close>

lemma wl_inv_detach: "wl_inv s \<Longrightarrow> wl_inv (detach el p s)"
proof -
  assume I: "wl_inv s"
  show ?thesis
  proof (cases "map_of (surfaces s) el")
    case None
    with I show ?thesis by (simp add: detach_def)
  next
    case (Some info)
    let ?info' = "info\<lparr>layer := (layer info)\<lparr>layer_parent := p\<rparr>\<rparr>"
    have el_in: "(el, info) \<in> set (surfaces s)" using Some by (rule map_of_SomeD)
    have s': "detach el p s = s\<lparr>surfaces := AList.update el ?info' (surfaces s)\<rparr>"
      using Some by (simp add: detach_def)
    have hl: "\<forall>L \<in> set (lice info). home L = el \<and> speed_ok L"
      using I el_in by (auto simp: wl_inv_def lice_ok_def)
    have lo: "lice_ok (AList.update el ?info' (surfaces s))"
      using I hl unfolding wl_inv_def by (intro lice_ok_update) simp_all
    have S: "surfaces (detach el p s) = AList.update el ?info' (surfaces s)" by (simp add: s')
    have ds: "dead_scheduled (detach el p s)"
      using I by (intro dead_scheduled_update [OF _ Some _ S]) (simp_all add: wl_inv_def s')
    have wc: "within_capacity (detach el p s)"
      using I el_in by (auto simp: S wl_inv_def within_capacity_def dest!: in_set_update)
    have "timers_ok (detach el p s)" using I by (simp add: s' wl_inv_def timers_ok_def)
    with I lo ds wc show ?thesis by (simp add: S wl_inv_def distinct_update s')
  qed
qed

text \<open>Dropping a fired one-shot task keeps every other pending callback.\<close>

lemma drop_task_keeps:
  assumes "timers_ok s" "map_of (tasks s) j = Some t" "t' \<in> snd ` set (tasks s)" "t' \<noteq> t"
  shows "t' \<in> snd ` set (filter (\<lambda>(i, _). i \<noteq> j) (tasks s))"
proof -
  obtain i where it: "(i, t') \<in> set (tasks s)" using assms(3) by force
  have "i \<noteq> j"
  proof
    assume "i = j"
    with it assms(1) have "map_of (tasks s) j = Some t'"
      by (simp add: timers_ok_def map_of_is_SomeI)
    with assms(2,4) show False by simp
  qed
  with it show ?thesis by force
qed

lemma timers_ok_drop: "timers_ok s \<Longrightarrow> timers_ok (s\<lparr>tasks := filter (\<lambda>(i, _). i \<noteq> j) (tasks s)\<rparr>)"
  by (auto simp: timers_ok_def distinct_map_filter)

lemma wl_inv_drop_task:
  assumes I: "wl_inv s" and t: "map_of (tasks s) j = Some t" and nr: "\<forall>el i. t \<noteq> Remove_Timeout el i"
  shows "wl_inv (s\<lparr>tasks := filter (\<lambda>(i, _). i \<noteq> j) (tasks s)\<rparr>)"
proof -
  let ?s' = "s\<lparr>tasks := filter (\<lambda>(i, _). i \<noteq> j) (tasks s)\<rparr>"
  have keep: "Remove_Timeout el (lid L) \<in> snd ` set (tasks ?s')"
    if a: "(el, info) \<in> set (surfaces s)" "L \<in> set (lice info)" "\<not> alive L" for el info L
  proof -
    have "Remove_Timeout el (lid L) \<in> snd ` set (tasks s)"
      using I a by (auto simp: wl_inv_def dead_scheduled_def)
    moreover have "Remove_Timeout el (lid L) \<noteq> t" using nr by auto
    moreover have "timers_ok s" using I by (simp add: wl_inv_def)
    ultimately show ?thesis using drop_task_keeps [OF _ t] by simp
  qed
  have "dead_scheduled ?s'" unfolding dead_scheduled_def using keep by auto
  then show ?thesis
    using I timers_ok_drop [of s j] by (simp add: wl_inv_def within_capacity_def)
qed

lemma wl_inv_fire_remove:
  assumes I: "wl_inv s" and t: "map_of (tasks s) j = Some (Remove_Timeout el i)"
  shows "wl_inv (remove_louse el i (s\<lparr>tasks := filter (\<lambda>(k, _). k \<noteq> j) (tasks s)\<rparr>))"
proof -
  let ?s1 = "s\<lparr>tasks := filter (\<lambda>(k, _). k \<noteq> j) (tasks s)\<rparr>"
  have T: "timers_ok s" using I by (simp add: wl_inv_def)
  have I1: "valid_draws (rng ?s1) \<and> distinct (map fst (surfaces ?s1)) \<and> within_capacity ?s1 \<and>
      lice_ok (surfaces ?s1) \<and> timers_ok ?s1"
    using I timers_ok_drop [OF T, of j] by (simp add: wl_inv_def within_capacity_def)
  have keep: "Remove_Timeout el' (lid L) \<in> snd ` set (tasks ?s1)"
    if a: "(el', inf) \<in> set (surfaces s)" "L \<in> set (lice inf)" "\<not> alive L"
      and ne: "el' = el \<Longrightarrow> lid L \<noteq> i" for el' inf L
  proof -
    have "Remove_Timeout el' (lid L) \<in> snd ` set (tasks s)"
      using I a by (auto simp: wl_inv_def dead_scheduled_def)
    moreover have "Remove_Timeout el' (lid L) \<noteq> Remove_Timeout el i" using ne by auto
    ultimately show ?thesis using drop_task_keeps [OF T t] by simp
  qed
  show ?thesis
  proof (cases "map_of (surfaces s) el")
    case None
    have "el' \<noteq> el" if "(el', inf) \<in> set (surfaces s)" for el' inf
      using that None by (metis weak_map_of_SomeI option.distinct(1))
    then have "dead_scheduled ?s1" unfolding dead_scheduled_def using keep by fastforce
    with I1 None show ?thesis by (simp add: remove_louse_def wl_inv_def)
  next
    case (Some info)
    let ?info' = "info\<lparr>lice := filter (\<lambda>L. lid L \<noteq> i) (lice info)\<rparr>"
    have el_in: "(el, info) \<in> set (surfaces s)" using Some by (rule map_of_SomeD)
    have S: "surfaces (remove_louse el i ?s1) = AList.update el ?info' (surfaces s)"
      using Some by (simp add: remove_louse_def)
    have O: "rng (remove_louse el i ?s1) = rng s" "tasks (remove_louse el i ?s1) = tasks ?s1"
      "next_timer (remove_louse el i ?s1) = next_timer s"
      using Some by (simp_all add: remove_louse_def)
    have ds: "Remove_Timeout el' (lid L) \<in> snd ` set (tasks ?s1)"
      if a: "(el', inf) \<in> set (AList.update el ?info' (surfaces s))" "L \<in> set (lice inf)" "\<not> alive L"
      for el' inf L
    proof (cases "el' = el")
      case True
      have dist: "distinct (map fst (surfaces s))" using I by (simp add: wl_inv_def)
      have a1: "(el, inf) \<in> set (AList.update el ?info' (surfaces s))" using a(1) True by simp
      have "inf = ?info'" by (rule in_set_update_key [OF dist a1])
      with a(2) have L: "L \<in> set (lice info)" "lid L \<noteq> i" by auto
      have "Remove_Timeout el (lid L) \<in> snd ` set (tasks ?s1)"
        using L(2) by (intro keep [OF el_in L(1) a(3)])
      with True show ?thesis by simp
    next
      case False
      with a(1) have p: "(el', inf) \<in> set (surfaces s)" by (rule in_set_update_other)
      show ?thesis by (rule keep [OF p a(2) a(3)]) (simp add: False)
    qed
    have lo: "lice_ok (AList.update el ?info' (surfaces s))"
      using I el_in unfolding wl_inv_def by (intro lice_ok_update) (auto simp: lice_ok_def)
    have wc: "within_capacity (remove_louse el i ?s1)"
    proof -
      have "length (lice inf) \<le> activeMaxPerSurface CFG"
        if p: "(el', inf) \<in> set (AList.update el ?info' (surfaces s))" for el' inf
      proof -
        from p have "(el', inf) = (el, ?info') \<or> (el', inf) \<in> set (surfaces s)" by (rule in_set_update)
        then show ?thesis
        proof
          assume "(el', inf) = (el, ?info')"
          then have "length (lice inf) \<le> length (lice info)" by auto
          also have "\<dots> \<le> activeMaxPerSurface CFG"
            using I el_in by (auto simp: wl_inv_def within_capacity_def)
          finally show ?thesis .
        next
          assume "(el', inf) \<in> set (surfaces s)"
          with I show ?thesis by (auto simp: wl_inv_def within_capacity_def)
        qed
      qed
      then show ?thesis by (auto simp: within_capacity_def S)
    qed
    have "dead_scheduled (remove_louse el i ?s1)"
      unfolding dead_scheduled_def S O using ds by blast
    moreover have "timers_ok (remove_louse el i ?s1)"
      using I1 unfolding timers_ok_def O by simp
    ultimately show ?thesis using I1 lo wc by (simp add: wl_inv_def S O distinct_update)
  qed
qed

section \<open>Bootstrap\<close>

lemma wl_inv_bindFlipbookEvents: "wl_inv s \<Longrightarrow> wl_inv (bindFlipbookEvents s)"
proof -
  assume I: "wl_inv s"
  let ?s1 = "if On_Resize \<in> set (listeners s) then s else s\<lparr>listeners := listeners s @ [On_Resize]\<rparr>"
  have I1: "wl_inv ?s1" by (rule wl_inv_congI [OF I]) simp_all
  then have "wl_inv (snd (schedule Poll_Interval ?s1))" by (rule wl_inv_schedule)
  moreover have "wl_inv (?s1\<lparr>listeners := listeners ?s1 @ [On_Turning, On_Turned]\<rparr>)"
    by (rule wl_inv_congI [OF I1]) simp_all
  ultimately show ?thesis by (simp only: bindFlipbookEvents_def Let_def) simp
qed

lemma wl_inv_start: "wl_inv s \<Longrightarrow> wl_inv (start v s)"
  unfolding start_def by (intro wl_inv_schedule, erule wl_inv_congI) simp_all

lemma wl_inv_start_resume:
  assumes I: "wl_inv s"
  shows "wl_inv (start_resume v s)"
proof -
  let ?s1 = "bindFlipbookEvents (snd (ensureLayersOnVisiblePages v s))"
  let ?s2 = "snd (schedule Burst_Timeout ?s1)"
  let ?s3 = "snd (schedule Burst_Interval ?s2)"
  let ?tid = "fst (schedule Burst_Interval ?s2)"
  have I3: "wl_inv ?s3"
    using I by (intro wl_inv_schedule wl_inv_bindFlipbookEvents wl_inv_ensureLayers)
  have I4: "wl_inv (?s3\<lparr>spawnTimerId := Some ?tid, running := b\<rparr>)" for b
    using I3 by (rule wl_inv_congI) simp_all
  then have "wl_inv (snd (schedule Frame_Request (?s3\<lparr>spawnTimerId := Some ?tid, running := b\<rparr>)))" for b
    by (rule wl_inv_schedule)
  with I4 show ?thesis by (simp add: start_resume_def Let_def case_prod_beta)
qed

section \<open>Timers, listeners and events\<close>

lemma wl_inv_run_task:
  assumes I: "wl_inv s" and nr: "\<forall>el i. t \<noteq> Remove_Timeout el i"
    and fr: "t = Frame_Request \<Longrightarrow> lastT s \<le> ts"
  shows "wl_inv (run_task v ts t s)"
  using I nr fr
  by (cases t) (simp_all add: run_task_def wl_inv_start_resume wl_inv_spawnBurst
      wl_inv_ensureLayers wl_inv_loop)

lemma wl_inv_fire:
  assumes I: "wl_inv s" and h: "host_ok s (Timer i ts)"
  shows "wl_inv (fire v i ts s)"
proof (cases "map_of (tasks s) i")
  case None
  with I show ?thesis by (simp add: fire_def)
next
  case (Some t)
  have fr: "t = Frame_Request \<Longrightarrow> lastT s \<le> ts" using h Some by (simp add: host_ok_def)
  show ?thesis
  proof (cases "\<exists>el j. t = Remove_Timeout el j")
    case True
    then obtain el j where t: "t = Remove_Timeout el j" by blast
    have "wl_inv (remove_louse el j (s\<lparr>tasks := filter (\<lambda>(k, _). k \<noteq> i) (tasks s)\<rparr>))"
      using I Some t by (intro wl_inv_fire_remove) simp_all
    with Some t show ?thesis by (simp add: fire_def run_task_def is_interval_def)
  next
    case False
    then have nr: "\<forall>el j. t \<noteq> Remove_Timeout el j" by blast
    have "wl_inv (if is_interval t then s else s\<lparr>tasks := filter (\<lambda>(j, _). j \<noteq> i) (tasks s)\<rparr>)"
      using I wl_inv_drop_task [OF I Some nr] by simp
    then have "wl_inv (run_task v ts t (if is_interval t then s else s\<lparr>tasks := filter (\<lambda>(j, _). j \<noteq> i) (tasks s)\<rparr>))"
      using nr fr by (intro wl_inv_run_task) simp_all
    with Some show ?thesis by (simp add: fire_def)
  qed
qed

lemma wl_inv_handler: "wl_inv s \<Longrightarrow> wl_inv (handler v l s)"
  by (cases l) (simp_all add: handler_def wl_inv_start wl_inv_ensureLayers)

lemma wl_inv_fold_handler:
  "wl_inv s \<Longrightarrow> wl_inv (fold (\<lambda>l' s. if l' = l then handler v l s else s) ls s)"
  by (induction ls arbitrary: s) (simp_all add: wl_inv_handler)

lemma wl_inv_step: "wl_inv s \<Longrightarrow> host_ok s e \<Longrightarrow> wl_inv (step v e s)"
  by (cases e) (simp_all add: step_def dispatch_def wl_inv_fold_handler wl_inv_fire wl_inv_start
      wl_inv_spawnBurst wl_inv_detach)

theorem reachable_wl_inv: "reachable s \<Longrightarrow> wl_inv s"
  by (induction rule: reachable.induct) (simp_all add: wl_inv_init wl_inv_step)

section \<open>Properties of every reachable state\<close>

lemmas demo_simps = step_def spawnBurst_def getVisiblePages_def page_visible_def rectHasSize_def
  area_def ensureLayersOnVisiblePages_def ensure_one_def init_state_def shuffle_def spawnOneOn_def
  measure_def start_def schedule_def fire_def run_task_def start_resume_def is_interval_def
  bindFlipbookEvents_def host_ok_def case_prod_beta Let_def

lemma demo_burst_reachable: "reachable demo_burst"
  by (intro reachable.step reachable.init valid_draws_sconst) (simp_all add: host_ok_def)

lemma demo_burst_louse:
  "hd (surfaces demo_burst) \<in> set (surfaces demo_burst) \<and>
   hd (lice (snd (hd (surfaces demo_burst)))) \<in> set (lice (snd (hd (surfaces demo_burst))))"
  by (simp add: demo_simps)

lemma demo_run_reachable: "reachable demo_run"
  unfolding run.simps
  by (intro reachable.step reachable.init valid_draws_sconst) (simp_all add: demo_simps)

lemma demo_run_dead:
  "hd (surfaces demo_run) \<in> set (surfaces demo_run) \<and>
   hd (lice (snd (hd (surfaces demo_run)))) \<in> set (lice (snd (hd (surfaces demo_run)))) \<and>
   \<not> alive (hd (lice (snd (hd (surfaces demo_run)))))"
  by (simp add: demo_simps loop_def frame_dt_def tick_def move_louse_position maybeDespawn_def
      out_of_bounds_def despawn_threshold_def tick_louse_def usable_def makeLouse_def
      configureRoute_def place_route_def enter_side_def edge_pos_def js_random_def rnd_def clamp_def)

text \<open>
  C1: in every reachable state, whatever the host did before, no surface holds more than
  \<open>activeMaxPerSurface\<close> lice.
\<close>

theorem reachable_capacity:
  assumes "reachable s" and "(el, info) \<in> set (surfaces s)"
  shows "length (lice info) \<le> activeMaxPerSurface CFG"
  using reachable_wl_inv [OF assms(1)] assms(2) by (auto simp: wl_inv_def within_capacity_def)

theorem reachable_capacity_witness:
  "reachable demo_burst \<and> hd (surfaces demo_burst) \<in> set (surfaces demo_burst) \<and>
   length (lice (snd (hd (surfaces demo_burst)))) \<le> activeMaxPerSurface CFG"
  using demo_burst_reachable demo_burst_louse
    reachable_capacity [OF demo_burst_reachable, of "fst (hd (surfaces demo_burst))" "snd (hd (surfaces demo_burst))"]
  by simp

text \<open>
  C2: in every reachable state every registered louse, alive or dead, moves at a speed in
  \<open>[speedMin, speedMax]\<close> = \<open>[300, 420]\<close> px/s, and sits in the surface it names as
  its home.
\<close>

theorem reachable_speed:
  assumes "reachable s" and "(el, info) \<in> set (surfaces s)" and "L \<in> set (lice info)"
  shows "speedMin CFG \<le> hypot (lvx L) (lvy L) \<and> hypot (lvx L) (lvy L) \<le> speedMax CFG \<and> home L = el"
  using reachable_wl_inv [OF assms(1)] assms(2,3) by (auto simp: wl_inv_def lice_ok_def speed_ok_def)

theorem reachable_speed_witness:
  "let P = hd (surfaces demo_burst); L = hd (lice (snd P))
   in reachable demo_burst \<and> P \<in> set (surfaces demo_burst) \<and> L \<in> set (lice (snd P)) \<and>
      speedMin CFG \<le> hypot (lvx L) (lvy L) \<and> hypot (lvx L) (lvy L) \<le> speedMax CFG"
  using demo_burst_reachable demo_burst_louse
    reachable_speed [OF demo_burst_reachable, of "fst (hd (surfaces demo_burst))" "snd (hd (surfaces demo_burst))"]
  by (simp add: Let_def)

text \<open>
  C3: in every reachable state a dead louse that is still registered has its removal
  callback pending: the removal is never lost, so dead lice do not accumulate.
\<close>

theorem reachable_dead_scheduled:
  assumes "reachable s" and "(el, info) \<in> set (surfaces s)" and "L \<in> set (lice info)"
    and "\<not> alive L"
  shows "\<exists>i. (i, Remove_Timeout el (lid L)) \<in> set (tasks s)"
  using reachable_wl_inv [OF assms(1)] assms(2-4) by (fastforce simp: wl_inv_def dead_scheduled_def)

theorem reachable_dead_scheduled_witness:
  "let P = hd (surfaces demo_run); L = hd (lice (snd P))
   in reachable demo_run \<and> P \<in> set (surfaces demo_run) \<and> L \<in> set (lice (snd P)) \<and> \<not> alive L \<and>
      (\<exists>i. (i, Remove_Timeout (fst P) (lid L)) \<in> set (tasks demo_run))"
  using demo_run_reachable demo_run_dead
    reachable_dead_scheduled [OF demo_run_reachable, of "fst (hd (surfaces demo_run))" "snd (hd (surfaces demo_run))"]
  by (simp add: Let_def)

end
