(* ===== verification/Reduced.thy ===== *)
theory Reduced
  imports Reach
begin

text \<open>
  The reduced-motion guard of \<open>start\<close> (lines 325--327). A state is \<open>inert\<close> when the
  loop is not running and no animation frame is pending: then no \<open>tick\<close> and no
  \<open>stepFrame\<close> can happen. \<open>frozen s s'\<close> says that going from \<open>s\<close> to \<open>s'\<close> moved no
  louse: every louse position of \<open>s'\<close> is one of \<open>s\<close>, or belongs to a louse created
  since (its id is at least the id counter of \<open>s\<close>).

  The lemmas show that with the reduced-motion preference every step of the host keeps a
  state inert and frozen: the frame loop is never scheduled and no louse moves. Bursts
  still fire (the burst timers of lines 322--323 are set before the preference is read),
  so lice are still created; they stay where they were placed.
\<close>

definition inert :: "wl_state \<Rightarrow> bool" where
  "inert s \<longleftrightarrow> \<not> running s \<and> Frame_Request \<notin> snd ` set (tasks s)"

definition pos_of :: "(page \<times> surface_info) list \<Rightarrow> (page \<times> lid \<times> real \<times> real) list" where
  "pos_of ss = concat (map (\<lambda>(el, info). map (\<lambda>L. (el, lid L, lx L, ly L)) (lice info)) ss)"

definition frozen :: "wl_state \<Rightarrow> wl_state \<Rightarrow> bool" where
  "frozen s s' \<longleftrightarrow> next_lid s \<le> next_lid s' \<and>
     (\<forall>p \<in> set (pos_of (surfaces s')). p \<in> set (pos_of (surfaces s)) \<or> next_lid s \<le> fst (snd p))"

text \<open>The page of \<open>Reach.demo_view\<close>, with the reduced-motion preference set.\<close>

abbreviation demo_still :: view where
  "demo_still \<equiv> (demo_view 1000)\<lparr>v_reduced_motion := True\<rparr>"

section \<open>Positions\<close>

lemma pos_of_iff:
  "p \<in> set (pos_of ss) \<longleftrightarrow>
     (\<exists>el info L. (el, info) \<in> set ss \<and> L \<in> set (lice info) \<and> p = (el, lid L, lx L, ly L))"
  by (auto simp: pos_of_def)

lemma frozen_refl: "frozen s s"
  by (simp add: frozen_def)

lemma frozen_trans: "frozen s1 s2 \<Longrightarrow> frozen s2 s3 \<Longrightarrow> frozen s1 s3"
  unfolding frozen_def by (meson order_trans)

lemma frozen_same: "surfaces s' = surfaces s \<Longrightarrow> next_lid s \<le> next_lid s' \<Longrightarrow> frozen s s'"
  by (simp add: frozen_def)

text \<open>Replacing the entry of one page by one whose lice are old lice of that page or new ones.\<close>

lemma frozen_update:
  assumes S: "surfaces s' = AList.update el info' (surfaces s)" and n: "next_lid s \<le> next_lid s'"
    and new: "\<forall>L \<in> set (lice info'). (\<exists>info. (el, info) \<in> set (surfaces s) \<and> L \<in> set (lice info)) \<or>
                  next_lid s \<le> lid L"
  shows "frozen s s'"
proof -
  have "p \<in> set (pos_of (surfaces s)) \<or> next_lid s \<le> fst (snd p)"
    if p: "p \<in> set (pos_of (surfaces s'))" for p
  proof -
    obtain el' inf L where e: "(el', inf) \<in> set (AList.update el info' (surfaces s))"
        and L: "L \<in> set (lice inf)" and pL: "p = (el', lid L, lx L, ly L)"
      using p S by (auto simp: pos_of_iff)
    from e have "(el', inf) = (el, info') \<or> (el', inf) \<in> set (surfaces s)" by (rule in_set_update)
    then show ?thesis
    proof
      assume "(el', inf) = (el, info')"
      then have L': "L \<in> set (lice info')" "el' = el" using L by auto
      with new have "(\<exists>info. (el, info) \<in> set (surfaces s) \<and> L \<in> set (lice info)) \<or> next_lid s \<le> lid L"
        by blast
      then show ?thesis using pL L'(2) unfolding pos_of_iff by auto
    next
      assume "(el', inf) \<in> set (surfaces s)"
      with L pL show ?thesis by (auto simp: pos_of_iff)
    qed
  qed
  with n show ?thesis by (simp add: frozen_def)
qed

section \<open>Operations\<close>

lemma frozen_ensure_one: "frozen s (ensure_one el s)"
proof (cases "map_of (surfaces s) el")
  case None
  show ?thesis
    by (rule frozen_update [where info' = "\<lparr>layer = new_layer el, lice = []\<rparr>"])
       (simp_all add: ensure_one_def None)
next
  case (Some info)
  have "(el, info) \<in> set (surfaces s)" using Some by (rule map_of_SomeD)
  then show ?thesis
    by (intro frozen_update [where info' = "info\<lparr>layer := reattach el (layer info)\<rparr>"])
       (auto simp: ensure_one_def Some)
qed

lemma frozen_fold_ensure: "frozen s (fold ensure_one vis s)"
proof (induction vis arbitrary: s)
  case Nil
  then show ?case by (simp add: frozen_refl)
next
  case (Cons el vis)
  then show ?case using frozen_ensure_one frozen_trans by fastforce
qed

lemma frozen_ensureLayers: "frozen s (snd (ensureLayersOnVisiblePages v s))"
  by (simp add: ensureLayersOnVisiblePages_def Let_def frozen_fold_ensure)

lemma frozen_spawnOneOn: "frozen s (snd (spawnOneOn v el s))"
proof (cases "spawnOneOn v el s")
  case (Pair r s')
  show ?thesis
  proof (cases r)
    case None
    with Pair show ?thesis using spawnOneOn_None [of v el s s'] by (simp add: frozen_refl)
  next
    case (Some L)
    with Pair obtain info rs' where
      I: "map_of (surfaces s) el = Some info" and
      C: "(L, rs') = configureRoute (fst (makeLouse el (next_lid s) (rng s)))
                  (fst (measure v el)) (snd (measure v el)) (snd (makeLouse el (next_lid s) (rng s)))" and
      S: "s' = s\<lparr>surfaces := AList.update el (info\<lparr>lice := lice info @ [L]\<rparr>) (surfaces s),
             rng := rs', next_lid := Suc (next_lid s)\<rparr>"
      using spawnOneOn_Some by blast
    have "lid L = next_lid s"
      using configureRoute_keeps [OF C [symmetric]] makeLouse_fields [OF prod.collapse [symmetric]] by simp
    moreover have "(el, info) \<in> set (surfaces s)" using I by (rule map_of_SomeD)
    ultimately have "frozen s s'" by (intro frozen_update [of _ el]) (auto simp: S)
    with Pair show ?thesis by simp
  qed
qed

lemma frozen_spawn_pass: "frozen s (snd (spawn_pass v els n s))"
proof (induction els arbitrary: n s)
  case Nil
  then show ?case by (simp add: frozen_refl)
next
  case (Cons el els)
  obtain r s1 where S: "spawnOneOn v el s = (r, s1)" by (metis surj_pair)
  have f1: "frozen s s1" using frozen_spawnOneOn [of s v el] S by simp
  show ?case
    using Cons.IH [where s = s1] frozen_trans [OF f1] S
    by (cases r) (auto simp: frozen_refl)
qed

lemma frozen_spawnBurst: "frozen s (spawnBurst v s)"
proof -
  let ?s1 = "fold ensure_one (getVisiblePages v) s"
  have f1: "frozen s ?s1" by (rule frozen_fold_ensure)
  obtain sh rs where Sh: "shuffle (getVisiblePages v) (rng ?s1) = (sh, rs)" by (metis surj_pair)
  have f2: "frozen s (?s1\<lparr>rng := rs\<rparr>)" using f1 by (simp add: frozen_def)
  obtain n2 s2 where P1: "spawn_pass v sh (burstSize CFG) (?s1\<lparr>rng := rs\<rparr>) = (n2, s2)"
    by (metis surj_pair)
  have f3: "frozen s s2" using frozen_trans [OF f2 frozen_spawn_pass [of _ v sh "burstSize CFG"]] P1 by simp
  have f4: "frozen s (snd (spawn_pass v sh n2 s2))" using frozen_trans [OF f3 frozen_spawn_pass] .
  show ?thesis
    using f1 f3 f4 Sh P1
    by (auto simp: spawnBurst_def ensureLayersOnVisiblePages_def Let_def split: prod.splits)
qed

text \<open>Spawning touches only the registry, the draws and the id counter.\<close>

lemma spawnOneOn_other:
  "tasks (snd (spawnOneOn v el s)) = tasks s \<and> running (snd (spawnOneOn v el s)) = running s"
proof (cases "spawnOneOn v el s")
  case (Pair r s')
  then show ?thesis
  proof (cases r)
    case None
    with Pair show ?thesis using spawnOneOn_None [of v el s s'] by simp
  next
    case (Some L)
    with Pair show ?thesis using spawnOneOn_Some [of v el s L s'] by auto
  qed
qed

lemma spawn_pass_other:
  "tasks (snd (spawn_pass v els n s)) = tasks s \<and> running (snd (spawn_pass v els n s)) = running s"
proof (induction els arbitrary: n s)
  case Nil
  then show ?case by simp
next
  case (Cons el els)
  obtain r s1 where S: "spawnOneOn v el s = (r, s1)" by (metis surj_pair)
  have "tasks s1 = tasks s \<and> running s1 = running s" using spawnOneOn_other [of v el s] S by simp
  with Cons.IH [where s = s1] S show ?case by (cases r) auto
qed

lemma spawnBurst_other:
  "tasks (spawnBurst v s) = tasks s \<and> running (spawnBurst v s) = running s"
proof -
  let ?s1 = "fold ensure_one (getVisiblePages v) s"
  obtain sh rs where Sh: "shuffle (getVisiblePages v) (rng ?s1) = (sh, rs)" by (metis surj_pair)
  obtain n2 s2 where P1: "spawn_pass v sh (burstSize CFG) (?s1\<lparr>rng := rs\<rparr>) = (n2, s2)"
    by (metis surj_pair)
  have o2: "tasks s2 = tasks s \<and> running s2 = running s"
    using spawn_pass_other [of v sh "burstSize CFG" "?s1\<lparr>rng := rs\<rparr>"] P1 by simp
  have o3: "tasks (snd (spawn_pass v sh n2 s2)) = tasks s \<and> running (snd (spawn_pass v sh n2 s2)) = running s"
    using spawn_pass_other [of v sh n2 s2] o2 by simp
  show ?thesis
    using o2 o3 Sh P1 by (simp add: spawnBurst_def ensureLayersOnVisiblePages_def Let_def)
qed

lemma frozen_remove_louse: "frozen s (remove_louse el i s)"
proof (cases "map_of (surfaces s) el")
  case None
  then show ?thesis by (simp add: remove_louse_def frozen_refl)
next
  case (Some info)
  have "(el, info) \<in> set (surfaces s)" using Some by (rule map_of_SomeD)
  then show ?thesis
    by (intro frozen_update [where info' = "info\<lparr>lice := filter (\<lambda>L. lid L \<noteq> i) (lice info)\<rparr>"])
       (auto simp: remove_louse_def Some)
qed

lemma frozen_detach: "frozen s (detach el p s)"
proof (cases "map_of (surfaces s) el")
  case None
  then show ?thesis by (simp add: detach_def frozen_refl)
next
  case (Some info)
  have "(el, info) \<in> set (surfaces s)" using Some by (rule map_of_SomeD)
  then show ?thesis
    by (intro frozen_update [where info' = "info\<lparr>layer := (layer info)\<lparr>layer_parent := p\<rparr>\<rparr>"])
       (auto simp: detach_def Some)
qed

section \<open>Inert states\<close>

lemma inert_schedule: "inert s \<Longrightarrow> t \<noteq> Frame_Request \<Longrightarrow> inert (snd (schedule t s))"
  by (auto simp: inert_def schedule_def)

lemma frozen_schedule: "frozen s (snd (schedule t s))"
  by (simp add: frozen_same schedule_def)

lemma quiet_bind: "inert s \<Longrightarrow> inert (bindFlipbookEvents s) \<and> frozen s (bindFlipbookEvents s)"
  by (auto simp: bindFlipbookEvents_def Let_def inert_def schedule_def frozen_same)

lemma quiet_ensure:
  "inert s \<Longrightarrow> inert (snd (ensureLayersOnVisiblePages v s)) \<and> frozen s (snd (ensureLayersOnVisiblePages v s))"
  by (simp add: ensureLayersOnVisiblePages_def Let_def inert_def frozen_fold_ensure)

lemma quiet_spawnBurst: "inert s \<Longrightarrow> inert (spawnBurst v s) \<and> frozen s (spawnBurst v s)"
  using spawnBurst_other [of v s] by (simp add: inert_def frozen_spawnBurst)

lemma quiet_start: "inert s \<Longrightarrow> inert (start v s) \<and> frozen s (start v s)"
  by (auto simp: start_def inert_def schedule_def frozen_same)

lemma quiet_start_resume:
  assumes I: "inert s" and rm: "v_reduced_motion v"
  shows "inert (start_resume v s) \<and> frozen s (start_resume v s)"
proof -
  let ?s1 = "bindFlipbookEvents (snd (ensureLayersOnVisiblePages v s))"
  let ?s2 = "snd (schedule Burst_Timeout ?s1)"
  let ?s3 = "snd (schedule Burst_Interval ?s2)"
  have q1: "inert ?s1 \<and> frozen s ?s1"
    using quiet_ensure [OF I] quiet_bind frozen_trans by blast
  then have q3: "inert ?s3 \<and> frozen s ?s3"
    using inert_schedule frozen_schedule frozen_trans by (meson task.distinct)
  have "start_resume v s = ?s3\<lparr>spawnTimerId := Some (fst (schedule Burst_Interval ?s2)), running := False\<rparr>"
    using rm by (simp add: start_resume_def Let_def case_prod_beta)
  with q3 show ?thesis by (simp add: inert_def frozen_def)
qed

lemma quiet_remove_louse: "inert s \<Longrightarrow> inert (remove_louse el i s) \<and> frozen s (remove_louse el i s)"
  by (simp add: frozen_remove_louse) (simp add: remove_louse_def inert_def split: option.splits)

lemma quiet_detach: "inert s \<Longrightarrow> inert (detach el p s) \<and> frozen s (detach el p s)"
  by (simp add: frozen_detach) (simp add: detach_def inert_def split: option.splits)

lemma quiet_run_task:
  assumes "inert s" "v_reduced_motion v" "t \<noteq> Frame_Request"
  shows "inert (run_task v ts t s) \<and> frozen s (run_task v ts t s)"
  using assms
  by (cases t) (simp_all add: run_task_def quiet_start_resume quiet_spawnBurst quiet_ensure
      quiet_remove_louse)

lemma quiet_drop:
  "inert s \<Longrightarrow> inert (s\<lparr>tasks := filter P (tasks s)\<rparr>) \<and> frozen s (s\<lparr>tasks := filter P (tasks s)\<rparr>)"
  by (auto simp: inert_def frozen_same)

lemma quiet_fire:
  assumes I: "inert s" and rm: "v_reduced_motion v"
  shows "inert (fire v i ts s) \<and> frozen s (fire v i ts s)"
proof (cases "map_of (tasks s) i")
  case None
  with I show ?thesis by (simp add: fire_def frozen_refl)
next
  case (Some t)
  then have "(i, t) \<in> set (tasks s)" by (rule map_of_SomeD)
  with I have nf: "t \<noteq> Frame_Request" by (force simp: inert_def)
  let ?s1 = "if is_interval t then s else s\<lparr>tasks := filter (\<lambda>(j, _). j \<noteq> i) (tasks s)\<rparr>"
  have q1: "inert ?s1 \<and> frozen s ?s1" using I quiet_drop [OF I] by (simp add: frozen_refl)
  then have "inert (run_task v ts t ?s1) \<and> frozen ?s1 (run_task v ts t ?s1)"
    using rm nf by (intro quiet_run_task) simp_all
  with q1 Some show ?thesis by (auto simp: fire_def intro: frozen_trans)
qed

lemma quiet_handler: "inert s \<Longrightarrow> inert (handler v l s) \<and> frozen s (handler v l s)"
  by (cases l) (simp_all add: handler_def quiet_start quiet_ensure frozen_refl)

lemma quiet_fold_handler:
  "inert s \<Longrightarrow> inert (fold (\<lambda>l' s. if l' = l then handler v l s else s) ls s) \<and>
     frozen s (fold (\<lambda>l' s. if l' = l then handler v l s else s) ls s)"
proof (induction ls arbitrary: s)
  case Nil
  then show ?case by (simp add: frozen_refl)
next
  case (Cons l' ls)
  show ?case
  proof (cases "l' = l")
    case True
    with Cons quiet_handler [OF Cons.prems] show ?thesis by (auto intro: frozen_trans)
  next
    case False
    with Cons show ?thesis by simp
  qed
qed

lemma quiet_step:
  "inert s \<Longrightarrow> v_reduced_motion v \<Longrightarrow> inert (step v e s) \<and> frozen s (step v e s)"
  by (cases e) (simp_all add: step_def dispatch_def quiet_fold_handler quiet_fire quiet_start
      quiet_spawnBurst quiet_detach)

lemma quiet_run:
  "(\<forall>ve \<in> set es. v_reduced_motion (fst ve)) \<Longrightarrow> inert s \<Longrightarrow> inert (run es s) \<and> frozen s (run es s)"
proof (induction es arbitrary: s)
  case Nil
  then show ?case by (simp add: frozen_refl)
next
  case (Cons ve es)
  obtain v e where ve: "ve = (v, e)" by (cases ve)
  have q: "inert (step v e s) \<and> frozen s (step v e s)"
    using Cons.prems ve by (intro quiet_step) auto
  with Cons.IH [of "step v e s"] Cons.prems ve show ?case by (auto intro: frozen_trans)
qed

lemma inert_init: "inert (init_state rs)"
  by (simp add: inert_def init_state_def)

section \<open>Reduced motion\<close>

text \<open>
  C9: when the user prefers reduced motion, the frame loop never runs: from the initial
  state, whatever the host does (DOM events, timers, API calls, page moves), the state is
  never \<open>running\<close> and no animation frame is ever requested.
\<close>

theorem reduced_motion_inert:
  assumes "\<forall>ve \<in> set es. v_reduced_motion (fst ve)"
  shows "\<not> running (run es (init_state rs)) \<and> Frame_Request \<notin> snd ` set (tasks (run es (init_state rs)))"
  using quiet_run [OF assms inert_init] by (simp add: inert_def)

theorem reduced_motion_inert_witness:
  "v_reduced_motion demo_still \<and>
   \<not> running (run [(demo_still, DOMContentLoaded), (demo_still, Timer 0 0), (demo_still, Timer 2 0)]
                 (init_state (sconst (1 / 2)))) \<and>
   Frame_Request \<notin> snd ` set (tasks (run [(demo_still, DOMContentLoaded), (demo_still, Timer 0 0),
                 (demo_still, Timer 2 0)] (init_state (sconst (1 / 2)))))"
proof -
  have h: "\<forall>ve \<in> set [(demo_still, DOMContentLoaded), (demo_still, Timer 0 0), (demo_still, Timer 2 0)].
      v_reduced_motion (fst ve)" by simp
  have r: "v_reduced_motion demo_still" by simp
  show ?thesis by (rule conjI [OF r reduced_motion_inert [OF h]])
qed

lemma run_append: "run (es @ fs) s = run fs (run es s)"
  by (induction es s rule: run.induct) simp_all







text \<open>
  C10: under the reduced-motion preference no louse ever moves. Along any run of the host
  from the initial state in which every view has the preference set, every louse that
  exists at some point and is still registered later is on the same page at the same
  position.
\<close>

theorem reduced_motion_frozen:
  assumes "\<forall>ve \<in> set (es @ fs). v_reduced_motion (fst ve)"
    and "p \<in> set (pos_of (surfaces (run (es @ fs) (init_state rs))))"
    and "fst (snd p) < next_lid (run es (init_state rs))"
  shows "p \<in> set (pos_of (surfaces (run es (init_state rs))))"
proof -
  have es: "\<forall>ve \<in> set es. v_reduced_motion (fst ve)" and fs: "\<forall>ve \<in> set fs. v_reduced_motion (fst ve)"
    using assms(1) by simp_all
  have "inert (run es (init_state rs))" using quiet_run [OF es inert_init] by blast
  then have "frozen (run es (init_state rs)) (run fs (run es (init_state rs)))"
    using quiet_run [OF fs] by blast
  then show ?thesis using assms(2,3) by (auto simp: frozen_def run_append)
qed

theorem reduced_motion_frozen_witness:
  "let es = [(demo_still, DOMContentLoaded), (demo_still, Timer 0 0), (demo_still, Timer 2 0)];
       fs = [(demo_still, Api_Burst)];
       p = hd (pos_of (surfaces (run (es @ fs) (init_state (sconst (1 / 2))))))
   in v_reduced_motion demo_still \<and> p \<in> set (pos_of (surfaces (run (es @ fs) (init_state (sconst (1 / 2)))))) \<and>
      fst (snd p) < next_lid (run es (init_state (sconst (1 / 2)))) \<and>
      p \<in> set (pos_of (surfaces (run es (init_state (sconst (1 / 2))))))"
proof -
  let ?es = "[(demo_still, DOMContentLoaded), (demo_still, Timer 0 0), (demo_still, Timer 2 0)]"
  let ?fs = "[(demo_still, Api_Burst)]"
  let ?p = "hd (pos_of (surfaces (run (?es @ ?fs) (init_state (sconst (1 / 2))))))"
  have h: "\<forall>ve \<in> set (?es @ ?fs). v_reduced_motion (fst ve)" by simp
  have m: "?p \<in> set (pos_of (surfaces (run (?es @ ?fs) (init_state (sconst (1 / 2)))))) \<and>
      fst (snd ?p) < next_lid (run ?es (init_state (sconst (1 / 2))))"
    by (simp add: demo_simps dispatch_def handler_def pos_of_def configureRoute_lid makeLouse_lid)
  show ?thesis
    using m reduced_motion_frozen [OF h conjunct1 [OF m] conjunct2 [OF m]] by (simp only: Let_def) simp
qed


end
