(* ===== verification/Surfaces.thy ===== *)
theory Surfaces
  imports Reach
begin

text \<open>
  The registry over time. \<open>grows v s s'\<close> says that going from \<open>s\<close> to \<open>s'\<close> with the
  view \<open>v\<close> lost no registered surface and registered only pages that \<open>v\<close> lists. Every
  operation and every step of the host satisfies it: the registry is never shrunk (the
  spec's "never removes a registered surface or its agents"), and a surface is created
  only for a page that the Visibility Tracker returned.

  Together with the invariant this bounds the number of lice on a page set: the
  end-to-end property of the spec (two surfaces, capacity 2, any number of bursts: never
  more than 4 live agents).
\<close>

abbreviation pages_of :: "wl_state \<Rightarrow> page set" where
  "pages_of s \<equiv> fst ` set (surfaces s)"

definition grows :: "view \<Rightarrow> wl_state \<Rightarrow> wl_state \<Rightarrow> bool" where
  "grows v s s' \<longleftrightarrow> pages_of s \<subseteq> pages_of s' \<and> pages_of s' \<subseteq> pages_of s \<union> set (v_pages v)"

text \<open>The live lice of a state, counted over all surfaces.\<close>

definition live_count :: "wl_state \<Rightarrow> nat" where
  "live_count s = sum_list (map (\<lambda>(el, info). length (filter alive (lice info))) (surfaces s))"

text \<open>The host keeps its promise on every event of a run.\<close>

fun host_run :: "(view \<times> event) list \<Rightarrow> wl_state \<Rightarrow> bool" where
  "host_run [] s = True"
| "host_run ((v, e) # es) s = (host_ok s e \<and> host_run es (step v e s))"

section \<open>Keys of the registry\<close>

lemma pages_update_existing:
  assumes "map_of ss k = Some x"
  shows "fst ` set (AList.update k y ss) = fst ` set ss"
proof -
  have "(k, x) \<in> set ss" using assms by (rule map_of_SomeD)
  then have "k \<in> fst ` set ss" by force
  then show ?thesis by (auto simp: dom_update)
qed

lemma grows_same: "pages_of s' = pages_of s \<Longrightarrow> grows v s s'"
  by (simp add: grows_def)

lemma grows_trans: "grows v s1 s2 \<Longrightarrow> grows v s2 s3 \<Longrightarrow> grows v s1 s3"
  unfolding grows_def by (meson order_trans Un_mono Un_absorb2 sup.cobounded2 le_sup_iff)

lemma pages_spawnOneOn: "pages_of (snd (spawnOneOn v el s)) = pages_of s"
proof (cases "spawnOneOn v el s")
  case (Pair r s')
  show ?thesis
  proof (cases r)
    case None
    with Pair show ?thesis using spawnOneOn_None [of v el s s'] by simp
  next
    case (Some L)
    with Pair obtain info rs' where I: "map_of (surfaces s) el = Some info" and
      S: "s' = s\<lparr>surfaces := AList.update el (info\<lparr>lice := lice info @ [L]\<rparr>) (surfaces s),
             rng := rs', next_lid := Suc (next_lid s)\<rparr>"
      using spawnOneOn_Some by blast
    with Pair show ?thesis by (simp add: pages_update_existing)
  qed
qed

lemma pages_spawn_pass: "pages_of (snd (spawn_pass v els n s)) = pages_of s"
proof (induction els arbitrary: n s)
  case Nil
  then show ?case by simp
next
  case (Cons el els)
  obtain r s1 where S: "spawnOneOn v el s = (r, s1)" by (metis surj_pair)
  have "pages_of s1 = pages_of s" using pages_spawnOneOn [of v el s] S by simp
  with Cons.IH [where s = s1] S show ?case by (cases r) auto
qed

lemma grows_ensure: "grows v s (snd (ensureLayersOnVisiblePages v s))"
  using getVisiblePages_sound
  by (auto simp: grows_def ensureLayersOnVisiblePages_def Let_def fold_ensure_dom)

lemma grows_spawnBurst: "grows v s (spawnBurst v s)"
proof -
  let ?s1 = "fold ensure_one (getVisiblePages v) s"
  have g1: "grows v s ?s1" using grows_ensure [of v s] by (simp add: ensureLayersOnVisiblePages_def Let_def)
  obtain sh rs where Sh: "shuffle (getVisiblePages v) (rng ?s1) = (sh, rs)" by (metis surj_pair)
  obtain n2 s2 where P1: "spawn_pass v sh (burstSize CFG) (?s1\<lparr>rng := rs\<rparr>) = (n2, s2)"
    by (metis surj_pair)
  have p2: "pages_of s2 = pages_of ?s1"
    using pages_spawn_pass [of v sh "burstSize CFG" "?s1\<lparr>rng := rs\<rparr>"] P1 by simp
  have p3: "pages_of (snd (spawn_pass v sh n2 s2)) = pages_of ?s1"
    using pages_spawn_pass [of v sh n2 s2] p2 by simp
  show ?thesis
    using g1 p2 p3 Sh P1 by (simp add: spawnBurst_def ensureLayersOnVisiblePages_def Let_def grows_def)
qed

lemma pages_tick: "pages_of (tick v dt s) = pages_of s"
proof -
  obtain ss rs ts where T: "tick_surfaces v dt (surfaces s) (rng s) = (ss, rs, ts)" by (metis prod_cases3)
  then have "map fst ss = map fst (surfaces s)" by (blast dest: tick_surfaces_keys)
  then have "fst ` set ss = pages_of s" by (metis set_map)
  with T show ?thesis by (simp add: tick_def)
qed

lemma pages_loop: "pages_of (loop v ts s) = pages_of s"
proof -
  have "fst ` set (surfaces (step_all_frames s')) = pages_of s'" for s'
    by (metis set_map step_all_frames_keys(1))
  then show ?thesis by (simp add: loop_def Let_def pages_tick schedule_def)
qed

lemma pages_remove_louse: "pages_of (remove_louse el i s) = pages_of s"
  by (simp add: remove_louse_def pages_update_existing split: option.splits)

lemma pages_detach: "pages_of (detach el p s) = pages_of s"
  by (simp add: detach_def pages_update_existing split: option.splits)

lemma grows_start_resume: "grows v s (start_resume v s)"
proof -
  have "pages_of (start_resume v s) = pages_of (snd (ensureLayersOnVisiblePages v s))"
    by (simp add: start_resume_def Let_def case_prod_beta schedule_def bindFlipbookEvents_def)
  with grows_ensure [of v s] show ?thesis by (simp add: grows_def)
qed

lemma grows_run_task: "grows v s (run_task v ts t s)"
  by (cases t) (simp_all add: run_task_def grows_start_resume grows_spawnBurst grows_ensure
      grows_same pages_remove_louse pages_loop)

lemma grows_fire: "grows v s (fire v i ts s)"
  using grows_run_task [of v "s\<lparr>tasks := filter (\<lambda>(j, _). j \<noteq> i) (tasks s)\<rparr>"] grows_run_task [of v s]
  by (auto simp: fire_def grows_def split: option.splits)

lemma grows_handler: "grows v s (handler v l s)"
  by (cases l) (simp_all add: handler_def start_def schedule_def grows_ensure grows_same)

lemma grows_fold_handler: "grows v s (fold (\<lambda>l' s. if l' = l then handler v l s else s) ls s)"
proof (induction ls arbitrary: s)
  case Nil
  then show ?case by (simp add: grows_same)
next
  case (Cons l' ls)
  then show ?case using grows_handler grows_trans by (cases "l' = l") (simp_all, blast)
qed

lemma grows_step: "grows v s (step v e s)"
  by (cases e) (simp_all add: step_def dispatch_def grows_fold_handler grows_fire start_def
      schedule_def grows_same grows_spawnBurst pages_detach)

section \<open>Runs\<close>

lemma reachable_run: "reachable s \<Longrightarrow> host_run es s \<Longrightarrow> reachable (run es s)"
proof (induction es arbitrary: s)
  case Nil
  then show ?case by simp
next
  case (Cons ve es)
  obtain v e where ve: "ve = (v, e)" by (cases ve)
  with Cons.prems have "reachable (step v e s)" "host_run es (step v e s)"
    by (auto intro: reachable.step)
  with Cons.IH ve show ?case by simp
qed

lemma pages_run:
  "\<forall>ve \<in> set es. set (v_pages (fst ve)) \<subseteq> P \<Longrightarrow> pages_of (run es s) \<subseteq> pages_of s \<union> P"
proof (induction es arbitrary: s)
  case Nil
  then show ?case by simp
next
  case (Cons ve es)
  obtain v e where ve: "ve = (v, e)" by (cases ve)
  have "pages_of (step v e s) \<subseteq> pages_of s \<union> P"
    using grows_step [of v s e] Cons.prems ve by (auto simp: grows_def)
  with Cons.IH [of "step v e s"] Cons.prems ve show ?case by auto
qed

lemma sum_list_le_length_mult:
  "\<forall>x \<in> set xs. f x \<le> (c::nat) \<Longrightarrow> sum_list (map f xs) \<le> length xs * c"
  by (induction xs) (simp_all add: add_mono)

lemma live_count_le: "wl_inv s \<Longrightarrow> live_count s \<le> card (pages_of s) * activeMaxPerSurface CFG"
proof -
  assume I: "wl_inv s"
  have "\<forall>p \<in> set (surfaces s). (case p of (el, info) \<Rightarrow> length (filter alive (lice info)))
          \<le> activeMaxPerSurface CFG"
    using I by (auto simp: wl_inv_def within_capacity_def intro: le_trans [OF length_filter_le])
  then have "live_count s \<le> length (surfaces s) * activeMaxPerSurface CFG"
    unfolding live_count_def by (rule sum_list_le_length_mult)
  moreover have "length (surfaces s) = card (pages_of s)"
    using I distinct_card [of "map fst (surfaces s)"] by (simp add: wl_inv_def)
  ultimately show ?thesis by simp
qed

section \<open>Properties\<close>

text \<open>
  C12: no step of the host ever removes a registered surface, and a step registers only
  pages of the current page list: surfaces persist after leaving view, and a layer exists
  only for a page the tracker has seen.
\<close>

theorem step_keeps_surfaces:
  "fst ` set (surfaces s) \<subseteq> fst ` set (surfaces (step v e s)) \<and>
   fst ` set (surfaces (step v e s)) \<subseteq> fst ` set (surfaces s) \<union> set (v_pages v)"
  using grows_step [of v s e] by (simp add: grows_def)

text \<open>
  C13: along any run from the initial state over a fixed set of pages, the number of
  live lice never exceeds the number of pages times \<open>activeMaxPerSurface\<close>: with the
  spec's two surfaces and capacity 2, never more than 4, however many bursts fire.
\<close>

theorem live_lice_bound:
  assumes "valid_draws rs" and "host_run es (init_state rs)"
    and "\<forall>ve \<in> set es. set (v_pages (fst ve)) \<subseteq> set ps"
  shows "live_count (run es (init_state rs)) \<le> card (set ps) * activeMaxPerSurface CFG"
proof -
  let ?s = "run es (init_state rs)"
  have "reachable ?s" using reachable.init [OF assms(1)] assms(2) by (rule reachable_run)
  then have c: "live_count ?s \<le> card (pages_of ?s) * activeMaxPerSurface CFG"
    by (intro live_count_le reachable_wl_inv)
  have "pages_of ?s \<subseteq> set ps" using pages_run [OF assms(3), of "init_state rs"]
    by (simp add: init_state_def)
  then have "card (pages_of ?s) \<le> card (set ps)" by (simp add: card_mono)
  with c show ?thesis by (meson le_trans mult_le_mono1)
qed

theorem live_lice_bound_witness:
  "let R = \<lparr>r_width = 400, r_height = 300, r_top = 0, r_bottom = 300\<rparr>;
       V = \<lparr>v_pages = [0, 2], v_rect = (\<lambda>_. R), v_innerHeight = 800, v_layer_rect = (\<lambda>_. R),
            v_layer_offset = (\<lambda>_. (400, 300)), v_jquery = True, v_reduced_motion = False\<rparr>;
       es = [(V, Api_Burst), (V, Api_Burst), (V, Api_Burst), (V, Api_Burst), (V, Api_Burst)]
   in valid_draws (sconst (1 / 2)) \<and> host_run es (init_state (sconst (1 / 2))) \<and>
      set (v_pages V) \<subseteq> set [0, 2] \<and>
      live_count (run es (init_state (sconst (1 / 2)))) \<le> 4"
proof -
  let ?R = "\<lparr>r_width = 400, r_height = 300, r_top = 0, r_bottom = 300\<rparr>"
  let ?V = "\<lparr>v_pages = [0, 2], v_rect = (\<lambda>_. ?R), v_innerHeight = 800, v_layer_rect = (\<lambda>_. ?R),
            v_layer_offset = (\<lambda>_. (400, 300)), v_jquery = True, v_reduced_motion = False\<rparr>"
  let ?es = "[(?V, Api_Burst), (?V, Api_Burst), (?V, Api_Burst), (?V, Api_Burst), (?V, Api_Burst)]"
  have d: "valid_draws (sconst (1 / 2))" by (simp add: valid_draws_sconst)
  have h: "host_run ?es (init_state (sconst (1 / 2)))" by (simp add: host_ok_def)
  have p: "\<forall>ve \<in> set ?es. set (v_pages (fst ve)) \<subseteq> set [0, 2]" by simp
  have "live_count (run ?es (init_state (sconst (1 / 2)))) \<le> card (set [0::nat, 2]) * activeMaxPerSurface CFG"
    by (rule live_lice_bound [OF d h p])
  then have "live_count (run ?es (init_state (sconst (1 / 2)))) \<le> 4" by simp
  moreover have "set (v_pages ?V) \<subseteq> set [0, 2]" by simp
  ultimately show ?thesis using d h by (simp only: Let_def)
qed

end
