(* ===== verification/Host.thy ===== *)
theory Host
  imports Reach
begin

text \<open>
  Properties of the program's interaction with its host: a layer moved away by Turn.js
  is restored by the next refresh as if it had never moved; a dead louse can always be
  removed by firing its pending timer; and a second \<open>start()\<close> duplicates the listeners
  and the burst interval.
\<close>

section \<open>Reparenting and refresh\<close>

lemma reattach_reparent: "reattach el (l\<lparr>layer_parent := p\<rparr>) = reattach el l"
  by (simp add: reattach_def Let_def)

lemma ensure_one_detach_same: "ensure_one el (detach el p s) = ensure_one el s"
  by (auto simp: ensure_one_def detach_def update_conv' reattach_reparent split: option.splits)

lemma ensure_one_detach_other:
  assumes ne: "a \<noteq> el"
  shows "ensure_one a (detach el p s) = detach el p (ensure_one a s)"
proof (cases "map_of (surfaces s) el")
  case None
  then have "map_of (surfaces (ensure_one a s)) el = None"
    using ne by (auto simp: ensure_one_def update_conv' split: option.splits)
  with None show ?thesis by (simp add: detach_def)
next
  case (Some info)
  have el_in: "el \<in> fst ` set (surfaces s)" using Some by (force dest: map_of_SomeD)
  have sw: "AList.update a x (AList.update el y (surfaces s)) = AList.update el y (AList.update a x (surfaces s))"
    for x y using update_swap_present [OF ne el_in] .
  have m: "map_of (surfaces (ensure_one a s)) el = Some info"
    using ne Some by (auto simp: ensure_one_def update_conv' split: option.splits)
  show ?thesis
    using ne Some m by (cases "map_of (surfaces s) a") (simp_all add: ensure_one_def detach_def update_conv' sw)
qed

lemma fold_ensure_detach:
  "el \<in> set vis \<Longrightarrow> fold ensure_one vis (detach el p s) = fold ensure_one vis s"
proof (induction vis arbitrary: s)
  case Nil
  then show ?case by simp
next
  case (Cons a vis)
  show ?case
  proof (cases "a = el")
    case True
    then show ?thesis by (simp add: ensure_one_detach_same)
  next
    case False
    with Cons show ?thesis by (simp add: ensure_one_detach_other)
  qed
qed

section \<open>Removal of dead lice\<close>

lemma fire_remove_louse:
  assumes T: "map_of (tasks s) i = Some (Remove_Timeout el j)" and S: "map_of (surfaces s) el = Some info"
  shows "map_of (surfaces (step v (Timer i ts) s)) el = Some (info\<lparr>lice := filter (\<lambda>L. lid L \<noteq> j) (lice info)\<rparr>)"
  using T S by (simp add: step_def fire_def is_interval_def run_task_def remove_louse_def update_conv')

section \<open>Properties\<close>

text \<open>
  C18: refreshing the layers after Turn.js moved the layer of a visible page away gives
  exactly the registry that a refresh without the move gives: the move is undone and
  nothing else changes.
\<close>

theorem refresh_after_reparent:
  assumes "el \<in> set (getVisiblePages v)"
  shows "ensureLayersOnVisiblePages v (detach el p s) = ensureLayersOnVisiblePages v s"
  using fold_ensure_detach [OF assms] by (simp add: ensureLayersOnVisiblePages_def)

theorem refresh_after_reparent_witness:
  "0 \<in> set (getVisiblePages (demo_view 1000)) \<and>
   ensureLayersOnVisiblePages (demo_view 1000) (detach 0 None demo_burst) =
     ensureLayersOnVisiblePages (demo_view 1000) demo_burst"
proof -
  have h: "0 \<in> set (getVisiblePages (demo_view 1000))" by (simp add: demo_simps)
  show ?thesis by (rule conjI [OF h refresh_after_reparent [OF h]])
qed

text \<open>
  C19: a dead louse is never stuck: in every reachable state the host can remove a
  registered dead louse by firing one pending timer, its removal callback, whatever the
  page looks like and whenever it fires; the surface stays registered.
\<close>

theorem dead_louse_removable:
  assumes R: "reachable s" and L: "(el, info) \<in> set (surfaces s)" "L \<in> set (lice info)" "\<not> alive L"
  shows "\<exists>i. \<forall>v ts. \<exists>info'. map_of (surfaces (step v (Timer i ts) s)) el = Some info' \<and>
           lid L \<notin> lid ` set (lice info')"
proof -
  have I: "wl_inv s" using R by (rule reachable_wl_inv)
  then obtain i where "(i, Remove_Timeout el (lid L)) \<in> set (tasks s)"
    using L by (force simp: wl_inv_def dead_scheduled_def)
  then have T: "map_of (tasks s) i = Some (Remove_Timeout el (lid L))"
    using I by (simp add: wl_inv_def timers_ok_def map_of_is_SomeI)
  have S: "map_of (surfaces s) el = Some info" using I L(1) by (simp add: wl_inv_def map_of_is_SomeI)
  show ?thesis
  proof (intro exI [where x = i] allI)
    fix v ts
    show "\<exists>info'. map_of (surfaces (step v (Timer i ts) s)) el = Some info' \<and>
        lid L \<notin> lid ` set (lice info')"
      using fire_remove_louse [OF T S, of v ts] by force
  qed
qed

theorem dead_louse_removable_witness:
  "let P = hd (surfaces demo_run); L = hd (lice (snd P))
   in reachable demo_run \<and> P \<in> set (surfaces demo_run) \<and> L \<in> set (lice (snd P)) \<and> \<not> alive L \<and>
      (\<exists>i. \<forall>v ts. \<exists>info'. map_of (surfaces (step v (Timer i ts) demo_run)) (fst P) = Some info' \<and>
           lid L \<notin> lid ` set (lice info'))"
  using demo_run_reachable demo_run_dead
    dead_louse_removable [OF demo_run_reachable, of "fst (hd (surfaces demo_run))" "snd (hd (surfaces demo_run))"]
  by (simp add: Let_def)

text \<open>
  C20: \<open>start()\<close> is not idempotent. Every completed \<open>start()\<close> adds one more repeating
  burst interval (the previous \<open>spawnTimerId\<close> is overwritten, never cleared) and, with
  jQuery, one more \<open>turning\<close>/\<open>turned\<close> pair; the resize listener stays single (the DOM
  drops a duplicate registration); without jQuery one more polling interval. Two calls of
  \<open>start()\<close> (the API after \<open>DOMContentLoaded\<close>, say) make bursts twice as frequent.
\<close>

theorem start_resume_repeats:
  "count_list (map snd (tasks (start_resume v s))) Burst_Interval = Suc (count_list (map snd (tasks s)) Burst_Interval) \<and>
   count_list (listeners (start_resume v s)) On_Resize = max 1 (count_list (listeners s) On_Resize) \<and>
   count_list (listeners (start_resume v s)) On_Turned = count_list (listeners s) On_Turned + (if flip s then 1 else 0) \<and>
   count_list (map snd (tasks (start_resume v s))) Poll_Interval =
     count_list (map snd (tasks s)) Poll_Interval + (if flip s then 0 else 1)"
proof -
  have c: "max 1 (count_list (listeners s) On_Resize) = count_list (listeners s) On_Resize"
    if "On_Resize \<in> set (listeners s)"
    using that count_list_0_iff [of "listeners s" On_Resize] by linarith
  show ?thesis
    using c
    by (cases "On_Resize \<in> set (listeners s)")
       (auto simp: start_resume_def bindFlipbookEvents_def ensureLayersOnVisiblePages_def schedule_def
          Let_def case_prod_beta count_list_0_iff)
qed

end
