(* ===== verification/Lifecycle.thy ===== *)
theory Lifecycle
  imports Reach
begin

text \<open>
  The life of one agent, as the spec's data model describes it (section 3), and its
  refinement by the program. An agent is seen through its page and id as
  \<open>agent s el i\<close>: absent, or alive or dead at a position. The abstract lifecycle
  \<open>life\<close> allows, in one step: nothing; birth of an alive agent; an alive agent moving,
  possibly dying where it arrives; removal of a dead agent. A dead agent never moves and
  is never revived, and only a dead agent is removed.

  \<open>ids_ok\<close> is the invariant that makes ids identify lice: every louse id is below the
  id counter and distinct within its surface, and every pending removal names an id
  below the counter whose louse, if still registered, is dead.
\<close>

type_synonym agent = "bool \<times> real \<times> real"

definition lice_at :: "wl_state \<Rightarrow> page \<Rightarrow> louse list" where
  "lice_at s el = (case map_of (surfaces s) el of None \<Rightarrow> [] | Some info \<Rightarrow> lice info)"

definition agent :: "wl_state \<Rightarrow> page \<Rightarrow> lid \<Rightarrow> agent option" where
  "agent s el i = map_option (\<lambda>L. (alive L, lx L, ly L)) (find (\<lambda>L. lid L = i) (lice_at s el))"

inductive life :: "agent option \<Rightarrow> agent option \<Rightarrow> bool" where
  stay: "life a a"
| born: "life None (Some (True, x, y))"
| move: "life (Some (True, x, y)) (Some (b, x', y'))"
| removed: "life (Some (False, x, y)) None"

definition removal_ok :: "wl_state \<Rightarrow> task \<Rightarrow> bool" where
  "removal_ok s t =
     (case t of
        Remove_Timeout el i \<Rightarrow> i < next_lid s \<and> (\<forall>L \<in> set (lice_at s el). lid L = i \<longrightarrow> \<not> alive L)
      | _ \<Rightarrow> True)"

text \<open>What a tick does to one louse: its id stays, and a dead louse is left as it is.\<close>

definition keeps_dead :: "louse \<Rightarrow> louse \<Rightarrow> bool" where
  "keeps_dead L L' \<longleftrightarrow> lid L' = lid L \<and> (\<not> alive L \<longrightarrow> L' = L)"

definition ids_ok :: "wl_state \<Rightarrow> bool" where
  "ids_ok s \<longleftrightarrow>
     (\<forall>(el, info) \<in> set (surfaces s). distinct (map lid (lice info)) \<and> (\<forall>L \<in> set (lice info). lid L < next_lid s)) \<and>
     (\<forall>p \<in> set (tasks s). removal_ok s (snd p))"

text \<open>One step of the program against the lifecycle, for the agent with id \<open>i\<close> on page
  \<open>el\<close>: a \<open>life\<close> step, and a birth only with an id the program never used.\<close>

definition lc_step :: "wl_state \<Rightarrow> wl_state \<Rightarrow> page \<Rightarrow> lid \<Rightarrow> bool" where
  "lc_step s s' el i \<longleftrightarrow> life (agent s el i) (agent s' el i) \<and>
     (agent s el i = None \<and> agent s' el i \<noteq> None \<longrightarrow> next_lid s \<le> i)"

text \<open>What spawning does to an agent: nothing, or a birth with a fresh id.\<close>

definition births :: "wl_state \<Rightarrow> wl_state \<Rightarrow> page \<Rightarrow> lid \<Rightarrow> bool" where
  "births s s' el i \<longleftrightarrow> agent s' el i = agent s el i \<or>
     (agent s el i = None \<and> next_lid s \<le> i \<and> map_option fst (agent s' el i) = Some True)"

code_pred life .

section \<open>The lice of a page\<close>

lemma lice_at_update:
  "surfaces s' = AList.update k info (surfaces s) \<Longrightarrow>
     lice_at s' el = (if el = k then lice info else lice_at s el)"
  by (simp add: lice_at_def update_conv')

lemma lice_at_same: "surfaces s' = surfaces s \<Longrightarrow> lice_at s' = lice_at s"
  by (simp add: lice_at_def fun_eq_iff)

lemma agent_same: "lice_at s' = lice_at s \<Longrightarrow> agent s' = agent s"
  by (simp add: agent_def fun_eq_iff)

lemma ids_ok_cong:
  "surfaces s' = surfaces s \<Longrightarrow> next_lid s' = next_lid s \<Longrightarrow> tasks s' = tasks s \<Longrightarrow> ids_ok s' = ids_ok s"
  by (simp add: ids_ok_def removal_ok_def lice_at_def split: task.splits)

lemma agent_surfaces: "surfaces s' = surfaces s \<Longrightarrow> agent s' = agent s"
  by (simp add: fun_eq_iff agent_def lice_at_def)

text \<open>The state-level form of the invariant: facts about \<open>lice_at\<close>.\<close>

lemma ids_ok_lice_at:
  "ids_ok s \<Longrightarrow> distinct (map lid (lice_at s el)) \<and> (\<forall>L \<in> set (lice_at s el). lid L < next_lid s)"
  by (auto simp: ids_ok_def lice_at_def dest!: map_of_SomeD split: option.splits)

lemma ids_ok_task: "ids_ok s \<Longrightarrow> p \<in> set (tasks s) \<Longrightarrow> removal_ok s (snd p)"
  by (simp add: ids_ok_def)

lemma ids_okI:
  assumes "\<And>el. distinct (map lid (lice_at s el)) \<and> (\<forall>L \<in> set (lice_at s el). lid L < next_lid s)"
    and "distinct (map fst (surfaces s))" and "\<forall>p \<in> set (tasks s). removal_ok s (snd p)"
  shows "ids_ok s"
proof -
  have "distinct (map lid (lice info)) \<and> (\<forall>L \<in> set (lice info). lid L < next_lid s)"
    if "(el, info) \<in> set (surfaces s)" for el info
  proof -
    have "map_of (surfaces s) el = Some info" using assms(2) that by (rule map_of_is_SomeI)
    then show ?thesis using assms(1) [of el] by (simp add: lice_at_def)
  qed
  with assms(3) show ?thesis by (auto simp: ids_ok_def)
qed

section \<open>Ticks\<close>

lemma tick_louse_life:
  "tick_louse v dt L rs = (L', rs', ts) \<Longrightarrow>
     keeps_dead L L' \<and> (\<forall>t \<in> set ts. alive L \<and> \<not> alive L' \<and> t = Remove_Timeout (home L) (lid L))"
  by (auto simp: tick_louse_def maybeDespawn_def keeps_dead_def Let_def js_random_def
      split: prod.splits if_splits)

lemma tick_lice_life:
  "tick_lice v dt Ls rs = (Ls', rs', ts) \<Longrightarrow>
     list_all2 keeps_dead Ls Ls' \<and>
     (\<forall>t \<in> set ts. \<exists>(L, L') \<in> set (zip Ls Ls'). alive L \<and> \<not> alive L' \<and> t = Remove_Timeout (home L) (lid L))"
proof (induction Ls arbitrary: Ls' rs rs' ts)
  case Nil
  then show ?case by simp
next
  case (Cons L Ls)
  obtain L1 rs1 ts1 where T: "tick_louse v dt L rs = (L1, rs1, ts1)" by (metis prod_cases3)
  obtain Ls2 rs2 ts2 where R: "tick_lice v dt Ls rs1 = (Ls2, rs2, ts2)" by (metis prod_cases3)
  from Cons.prems T R have eq: "Ls' = L1 # Ls2" "ts = ts1 @ ts2" by auto
  show ?case using tick_louse_life [OF T] Cons.IH [OF R] by (fastforce simp: eq)
qed

lemma tick_surfaces_life:
  "tick_surfaces v dt ss rs = (ss', rs', ts) \<Longrightarrow>
     list_all2 (\<lambda>p p'. fst p' = fst p \<and> list_all2 keeps_dead (lice (snd p)) (lice (snd p'))) ss ss' \<and>
     (\<forall>t \<in> set ts. \<exists>(p, p') \<in> set (zip ss ss'). \<exists>(L, L') \<in> set (zip (lice (snd p)) (lice (snd p'))).
        alive L \<and> \<not> alive L' \<and> t = Remove_Timeout (home L) (lid L))"
proof (induction v dt ss rs arbitrary: ss' rs' ts rule: tick_surfaces.induct)
  case (1 v dt rs)
  then show ?case by simp
next
  case (2 v dt el info ss rs)
  obtain ss2 rs2 ts2 where S0: "tick_surfaces v dt ss rs = (ss2, rs2, ts2)" by (metis prod_cases3)
  have kd_refl: "list_all2 keeps_dead Ls Ls" for Ls by (simp add: list_all2_refl keeps_dead_def)
  show ?case
  proof (cases "usable (measure v el)")
    case False
    from "2.prems" False S0 have eq: "ss' = (el, info) # ss2" "ts = ts2" by auto
    show ?thesis using "2.IH"(1) [OF False S0] kd_refl by (fastforce simp: eq)
  next
    case True
    obtain Ls1 rs1 ts1 where L: "tick_lice v dt (lice info) rs = (Ls1, rs1, ts1)" by (metis prod_cases3)
    obtain ss3 rs3 ts3 where S: "tick_surfaces v dt ss rs1 = (ss3, rs3, ts3)" by (metis prod_cases3)
    from "2.prems" True L S have eq: "ss' = (el, info\<lparr>lice := Ls1\<rparr>) # ss3" "ts = ts1 @ ts3" by auto
    note h2 = "2.IH"(2) [OF _ refl L [symmetric] refl S]
    show ?thesis using tick_lice_life [OF L] h2 True by (fastforce simp: eq)
  qed
qed

section \<open>Lists of lice\<close>

lemma find_rel:
  "list_all2 keeps_dead xs ys \<Longrightarrow>
     rel_option keeps_dead (find (\<lambda>L. lid L = i) xs) (find (\<lambda>L. lid L = i) ys)"
  by (induction rule: list_all2_induct) (auto simp: keeps_dead_def)

lemma map_of_rel:
  "list_all2 (\<lambda>p p'. fst p' = fst p \<and> Q (snd p) (snd p')) ss ss' \<Longrightarrow>
     rel_option Q (map_of ss k) (map_of ss' k)"
  by (induction rule: list_all2_induct) auto

lemma find_append_fresh:
  "\<forall>x \<in> set xs. lid x < lid L \<Longrightarrow>
     find (\<lambda>x. lid x = i) (xs @ [L]) = (if lid L = i then Some L else find (\<lambda>x. lid x = i) xs)"
  by (induction xs) auto

lemma find_filter_lid:
  "find (\<lambda>x. lid x = i) (filter (\<lambda>x. lid x \<noteq> j) xs) = (if i = j then None else find (\<lambda>x. lid x = i) xs)"
  by (induction xs) auto

lemma find_map_keeps:
  "(\<And>x. lid (f x) = lid x) \<Longrightarrow> find (\<lambda>x. lid x = i) (map f xs) = map_option f (find (\<lambda>x. lid x = i) xs)"
  by (induction xs) auto

lemma distinct_lid_eq:
  "distinct (map lid xs) \<Longrightarrow> x \<in> set xs \<Longrightarrow> y \<in> set xs \<Longrightarrow> lid x = lid y \<Longrightarrow> x = y"
  by (metis distinct_map inj_onD)

section \<open>The lice of a page, operation by operation\<close>

lemma lice_at_ensure_one: "lice_at (ensure_one k s) = lice_at s"
  by (auto simp: lice_at_def fun_eq_iff ensure_one_def update_conv' split: option.splits)

lemma lice_at_fold_ensure: "lice_at (fold ensure_one vis s) = lice_at s"
  by (induction vis arbitrary: s) (simp_all add: lice_at_ensure_one)

lemma lice_at_detach: "lice_at (detach k p s) = lice_at s"
  by (auto simp: lice_at_def fun_eq_iff detach_def update_conv' split: option.splits)

lemma find_SomeD: "find P xs = Some x \<Longrightarrow> x \<in> set xs \<and> P x"
  by (induction xs) (auto split: if_splits)

lemma lice_at_remove:
  "lice_at (remove_louse k j s) el = (if el = k then filter (\<lambda>L. lid L \<noteq> j) (lice_at s k) else lice_at s el)"
  by (auto simp: lice_at_def remove_louse_def update_conv' split: option.splits)

lemma lice_at_step_all_frames: "lice_at (step_all_frames s) el = map stepFrame (lice_at s el)"
  by (simp add: lice_at_def step_all_frames_def map_of_map split: option.splits)

lemma agent_step_all_frames: "agent (step_all_frames s) = agent s"
  by (simp add: agent_def fun_eq_iff lice_at_step_all_frames find_map_keeps option.map_comp comp_def)

section \<open>Spawning\<close>

lemma births_refl: "births s s el i"
  by (simp add: births_def)

lemma births_trans:
  "births s1 s2 el i \<Longrightarrow> births s2 s3 el i \<Longrightarrow> next_lid s1 \<le> next_lid s2 \<Longrightarrow> births s1 s3 el i"
  unfolding births_def by auto

lemma births_lc: "births s s' el i \<Longrightarrow> lc_step s s' el i"
  by (auto simp: births_def lc_step_def intro: life.intros elim!: option.map_sel)

lemma spawnOneOn_life:
  assumes W: "wl_inv s" and I: "ids_ok s"
  shows "ids_ok (snd (spawnOneOn v el s)) \<and> next_lid s \<le> next_lid (snd (spawnOneOn v el s)) \<and>
         (\<forall>el' i. births s (snd (spawnOneOn v el s)) el' i)"
proof (cases "spawnOneOn v el s")
  case (Pair r s')
  show ?thesis
  proof (cases r)
    case None
    with Pair I show ?thesis using spawnOneOn_None [of v el s s'] by (simp add: births_refl)
  next
    case (Some L)
    with Pair obtain info rs' where
      M: "map_of (surfaces s) el = Some info" and
      C: "(L, rs') = configureRoute (fst (makeLouse el (next_lid s) (rng s)))
                  (fst (measure v el)) (snd (measure v el)) (snd (makeLouse el (next_lid s) (rng s)))" and
      S: "s' = s\<lparr>surfaces := AList.update el (info\<lparr>lice := lice info @ [L]\<rparr>) (surfaces s),
             rng := rs', next_lid := Suc (next_lid s)\<rparr>"
      using spawnOneOn_Some by blast
    have L: "lid L = next_lid s" "alive L"
      using configureRoute_keeps [OF C [symmetric]] makeLouse_fields [OF prod.collapse [symmetric]] by simp_all
    have la: "lice_at s' el' = (if el' = el then lice_at s el @ [L] else lice_at s el')" for el'
      using lice_at_update [of s' el "info\<lparr>lice := lice info @ [L]\<rparr>" s el'] M by (simp add: S lice_at_def)
    have old: "distinct (map lid (lice_at s el')) \<and> (\<forall>x \<in> set (lice_at s el'). lid x < next_lid s)" for el'
      using ids_ok_lice_at [OF I] .
    have W': "wl_inv s'" using wl_inv_spawnOneOn [OF W, of v el] Pair by simp
    have ns: "next_lid s' = Suc (next_lid s)" by (simp add: S)
    have ids1: "distinct (map lid (lice_at s' el')) \<and> (\<forall>x \<in> set (lice_at s' el'). lid x < next_lid s')" for el'
      unfolding la ns using old [of el'] old [of el] L by (auto intro: less_SucI)
    have "removal_ok s' t" if t: "t \<in> snd ` set (tasks s)" for t
    proof -
      have "removal_ok s t" using I t by (auto simp: ids_ok_def)
      then show ?thesis using L unfolding removal_ok_def la ns by (auto split: task.splits)
    qed
    then have ids: "ids_ok s'"
      using W' ids1 by (intro ids_okI) (auto simp: wl_inv_def S)
    have "births s s' el' i" for el' i
    proof (cases "el' = el \<and> i = next_lid s")
      case True
      have "find (\<lambda>x. lid x = i) (lice_at s el) = None" using old [of el] True by (auto simp: find_None_iff)
      then show ?thesis using True L
        by (simp add: births_def agent_def la find_append_fresh old)
    next
      case False
      have "agent s' el' i = agent s el' i"
        using False old [of el] L by (auto simp: agent_def la find_append_fresh)
      then show ?thesis by (simp add: births_def)
    qed
    with ids Pair show ?thesis by (simp add: S)
  qed
qed

lemma spawn_pass_life:
  "wl_inv s \<Longrightarrow> ids_ok s \<Longrightarrow>
     ids_ok (snd (spawn_pass v els n s)) \<and> next_lid s \<le> next_lid (snd (spawn_pass v els n s)) \<and>
     (\<forall>el' i. births s (snd (spawn_pass v els n s)) el' i)"
proof (induction els arbitrary: n s)
  case Nil
  then show ?case by (simp add: births_refl)
next
  case (Cons el els)
  obtain r s1 where S: "spawnOneOn v el s = (r, s1)" by (metis surj_pair)
  have h1: "ids_ok s1 \<and> next_lid s \<le> next_lid s1 \<and> (\<forall>el' i. births s s1 el' i)"
    using spawnOneOn_life [OF Cons.prems, of v el] S by simp
  have w1: "wl_inv s1" using wl_inv_spawnOneOn [OF Cons.prems(1), of v el] S by simp
  have h2: "ids_ok (snd (spawn_pass v els m s1)) \<and> next_lid s1 \<le> next_lid (snd (spawn_pass v els m s1)) \<and>
      (\<forall>el' i. births s1 (snd (spawn_pass v els m s1)) el' i)" for m
    using Cons.IH [OF w1] h1 by blast
  let ?m = "if r = None then n else n - 1"
  have eq: "snd (spawn_pass v (el # els) n s) = (if n \<le> 0 then s else snd (spawn_pass v els ?m s1))"
    using S by (cases r) auto
  show ?case
  proof (cases "n \<le> 0")
    case True
    with Cons.prems(2) show ?thesis by (simp add: eq births_refl)
  next
    case False
    have "ids_ok (snd (spawn_pass v els ?m s1))" using h2 by blast
    moreover have "next_lid s \<le> next_lid (snd (spawn_pass v els ?m s1))" using h1 h2 [of ?m] by linarith
    moreover have "births s (snd (spawn_pass v els ?m s1)) el' i" for el' i
      using births_trans [of s s1 el' i] h1 h2 [of ?m] by blast
    ultimately show ?thesis unfolding eq using False by simp
  qed
qed

lemma spawnBurst_life:
  assumes W: "wl_inv s" and I: "ids_ok s"
  shows "ids_ok (spawnBurst v s) \<and> (\<forall>el i. births s (spawnBurst v s) el i)"
proof -
  let ?s1 = "fold ensure_one (getVisiblePages v) s"
  have w1: "wl_inv ?s1" using W by (rule wl_inv_fold_ensure)
  have la1: "lice_at ?s1 = lice_at s" by (rule lice_at_fold_ensure)
  have i1: "ids_ok ?s1"
    using w1 I ids_ok_lice_at [OF I]
    by (intro ids_okI) (auto simp: la1 wl_inv_def ids_ok_def removal_ok_def split: task.splits)
  obtain sh rs where Sh: "shuffle (getVisiblePages v) (rng ?s1) = (sh, rs)" by (metis surj_pair)
  let ?s2 = "?s1\<lparr>rng := rs\<rparr>"
  have "valid_draws rs" using shuffle_draws [OF Sh] w1 by (auto simp: wl_inv_def valid_draws_stl)
  with w1 have w2: "wl_inv ?s2" by (rule wl_inv_rng)
  have la2: "lice_at ?s2 = lice_at s" using la1 lice_at_same [of ?s2 ?s1] by simp
  have i2: "ids_ok ?s2" using i1 ids_ok_cong [of ?s2 ?s1] by simp
  have b2: "births s ?s2 el i" for el i using agent_same [OF la2] by (simp add: births_def)
  obtain n3 s3 where P1: "spawn_pass v sh (burstSize CFG) ?s2 = (n3, s3)" by (metis surj_pair)
  have h3: "ids_ok s3 \<and> next_lid ?s2 \<le> next_lid s3 \<and> (\<forall>el i. births ?s2 s3 el i)"
    using spawn_pass_life [OF w2 i2, of v sh "burstSize CFG"] P1 by simp
  have w3: "wl_inv s3" using wl_inv_spawn_pass [OF w2, of v sh "burstSize CFG"] P1 by simp
  have h4: "ids_ok (snd (spawn_pass v sh n3 s3)) \<and> next_lid s3 \<le> next_lid (snd (spawn_pass v sh n3 s3)) \<and>
      (\<forall>el i. births s3 (snd (spawn_pass v sh n3 s3)) el i)"
    using spawn_pass_life [OF w3 conjunct1 [OF h3]] .
  have n2: "next_lid s \<le> next_lid ?s2" by (simp add: fold_ensure_other)
  have b3: "births s s3 el i" for el i using births_trans [OF b2 _ n2] h3 by blast
  have b4: "births s (snd (spawn_pass v sh n3 s3)) el i" for el i
    using births_trans [OF b3 _ order_trans [OF n2 conjunct1 [OF conjunct2 [OF h3]]]] h4 by blast
  have b1: "births s ?s1 el i" for el i using agent_same [OF la1] by (simp add: births_def)
  show ?thesis
    using I births_refl i1 b1 h3 h4 b3 b4 Sh P1
    by (simp add: spawnBurst_def ensureLayersOnVisiblePages_def Let_def) blast
qed

section \<open>Ticks of the whole registry\<close>

lemma keeps_dead_lids: "list_all2 keeps_dead xs ys \<Longrightarrow> map lid ys = map lid xs"
  by (induction rule: list_all2_induct) (simp_all add: keeps_dead_def)

lemma keeps_dead_life:
  "rel_option keeps_dead a b \<Longrightarrow>
     life (map_option (\<lambda>L. (alive L, lx L, ly L)) a) (map_option (\<lambda>L. (alive L, lx L, ly L)) b)"
  by (cases a; cases b) (auto simp: keeps_dead_def intro: life.intros)

lemma tick_life:
  assumes W: "wl_inv s" and I: "ids_ok s"
  shows "ids_ok (tick v dt s) \<and> (\<forall>el i. lc_step s (tick v dt s) el i)"
proof -
  obtain ss rs ts where T: "tick_surfaces v dt (surfaces s) (rng s) = (ss, rs, ts)" by (metis prod_cases3)
  let ?s' = "tick v dt s"
  have S': "surfaces ?s' = ss" "next_lid ?s' = next_lid s"
    "map snd (tasks ?s') = map snd (tasks s) @ ts" using T by (simp_all add: tick_def schedule_all_tasks)
  note H = tick_surfaces_life [OF T]
  let ?R = "\<lambda>p p'. fst p' = fst p \<and> list_all2 keeps_dead (lice (snd p)) (lice (snd p'))"
  have R: "list_all2 ?R (surfaces s) ss" using conjunct1 [OF H] .
  have keys: "map fst ss = map fst (surfaces s)" using R by (induction rule: list_all2_induct) auto
  have dist: "distinct (map fst ss)" using W keys by (simp add: wl_inv_def)
  have la: "list_all2 keeps_dead (lice_at s el) (lice_at ?s' el)" for el
    using map_of_rel [OF R, of el]
    by (cases "map_of (surfaces s) el"; cases "map_of ss el") (simp_all add: lice_at_def S')
  have old: "distinct (map lid (lice_at s el)) \<and> (\<forall>x \<in> set (lice_at s el). lid x < next_lid s)" for el
    using ids_ok_lice_at [OF I] .
  have ids1: "distinct (map lid (lice_at ?s' el)) \<and> (\<forall>x \<in> set (lice_at ?s' el). lid x < next_lid ?s')" for el
  proof -
    have m: "map lid (lice_at ?s' el) = map lid (lice_at s el)" by (rule keeps_dead_lids [OF la])
    have "\<forall>x \<in> set (map lid (lice_at ?s' el)). x < next_lid s" using old [of el] unfolding m by simp
    then have "\<forall>x \<in> set (lice_at ?s' el). lid x < next_lid ?s'" by (simp add: S'(2))
    moreover have "distinct (map lid (lice_at ?s' el))" using old [of el] m by simp
    ultimately show ?thesis by blast
  qed
  have rem_old: "removal_ok ?s' t" if t: "removal_ok s t" for t
  proof (cases t)
    case (Remove_Timeout el i)
    have "\<not> alive L'" if L': "L' \<in> set (lice_at ?s' el)" "lid L' = i" for L'
    proof -
      obtain L where "L \<in> set (lice_at s el)" "keeps_dead L L'" using list_all2_in_set2 [OF la L'(1)] by blast
      with t L' Remove_Timeout show ?thesis by (auto simp: removal_ok_def keeps_dead_def)
    qed
    with t Remove_Timeout S'(2) show ?thesis by (simp add: removal_ok_def)
  qed (simp_all add: removal_ok_def)
  have rem_new: "removal_ok ?s' t" if t: "t \<in> set ts" for t
  proof -
    obtain p p' L L' where pp: "(p, p') \<in> set (zip (surfaces s) ss)"
        and LL: "(L, L') \<in> set (zip (lice (snd p)) (lice (snd p')))"
        and d: "alive L" "\<not> alive L'" and te: "t = Remove_Timeout (home L) (lid L)"
      using conjunct2 [OF H] t by blast
    have p: "p \<in> set (surfaces s)" "p' \<in> set ss" using pp by (auto dest: set_zip_leftD set_zip_rightD)
    have Rp: "?R p p'" using R pp by (auto simp: list_all2_iff)
    have L: "L \<in> set (lice (snd p))" "L' \<in> set (lice (snd p'))" using LL by (auto dest: set_zip_leftD set_zip_rightD)
    have kd: "keeps_dead L L'" using Rp LL by (auto simp: list_all2_iff)
    have home: "home L = fst p" using W p(1) L(1) by (auto simp: wl_inv_def lice_ok_def)
    have "map_of ss (fst p) = Some (snd p')" using dist p(2) Rp by (metis map_of_is_SomeI prod.collapse)
    then have at': "lice_at ?s' (fst p) = lice (snd p')" by (simp add: lice_at_def S')
    have "map_of (surfaces s) (fst p) = Some (snd p)" using W p(1) by (simp add: wl_inv_def map_of_is_SomeI)
    then have "L \<in> set (lice_at s (fst p))" using L(1) by (simp add: lice_at_def)
    then have lt: "lid L < next_lid s" using old by blast
    have "\<not> alive L''" if L'': "L'' \<in> set (lice_at ?s' (fst p))" "lid L'' = lid L" for L''
    proof -
      have "L'' = L'"
        using distinct_lid_eq [OF conjunct1 [OF ids1 [of "fst p"]] L''(1)] L(2) L''(2) kd at'
        by (simp add: keeps_dead_def)
      with d show ?thesis by simp
    qed
    with lt home te S'(2) show ?thesis by (simp add: removal_ok_def)
  qed
  have "\<forall>p \<in> set (tasks ?s'). removal_ok ?s' (snd p)"
  proof
    fix p assume "p \<in> set (tasks ?s')"
    then have "snd p \<in> set (map snd (tasks s)) \<or> snd p \<in> set ts" using S'(3) by (metis Un_iff image_eqI set_append set_map)
    then show "removal_ok ?s' (snd p)" using I rem_old rem_new by (auto simp: ids_ok_def)
  qed
  then have ids: "ids_ok ?s'" using ids1 dist by (intro ids_okI) (simp_all add: S')
  have "lc_step s ?s' el i" for el i
  proof -
    have "rel_option keeps_dead (find (\<lambda>L. lid L = i) (lice_at s el)) (find (\<lambda>L. lid L = i) (lice_at ?s' el))"
      using la by (rule find_rel)
    then have lf: "life (agent s el i) (agent ?s' el i)" unfolding agent_def by (rule keeps_dead_life)
    have nn: "(agent s el i = None) = (agent ?s' el i = None)"
      using find_rel [OF la [of el], of i]
    by (cases "find (\<lambda>L. lid L = i) (lice_at s el)"; cases "find (\<lambda>L. lid L = i) (lice_at ?s' el)")
       (simp_all add: agent_def)
    show ?thesis unfolding lc_step_def using lf nn by (intro conjI impI) simp_all
  qed
  with ids show ?thesis by blast
qed

section \<open>Operations that leave every agent alone\<close>

lemma lc_same_at: "agent s' el i = agent s el i \<Longrightarrow> lc_step s s' el i"
  by (auto simp: lc_step_def intro: life.stay)

lemma lc_same: "agent s' = agent s \<Longrightarrow> lc_step s s' el i"
  by (simp add: lc_same_at)

lemma lc_pre: "agent s1 = agent s \<Longrightarrow> next_lid s1 = next_lid s \<Longrightarrow> lc_step s1 s2 el i \<Longrightarrow> lc_step s s2 el i"
  by (simp add: lc_step_def)

lemma lc_post: "lc_step s s1 el i \<Longrightarrow> agent s2 = agent s1 \<Longrightarrow> lc_step s s2 el i"
  by (simp add: lc_step_def)

lemma ids_ok_transfer:
  assumes I: "ids_ok s" and D: "distinct (map fst (surfaces s'))" and A: "lice_at s' = lice_at s"
    and N: "next_lid s' = next_lid s"
    and T: "\<forall>p \<in> set (tasks s'). snd p \<in> snd ` set (tasks s) \<or> (\<forall>el i. snd p \<noteq> Remove_Timeout el i)"
  shows "ids_ok s'"
proof (rule ids_okI)
  show "distinct (map lid (lice_at s' el)) \<and> (\<forall>L \<in> set (lice_at s' el). lid L < next_lid s')" for el
    using ids_ok_lice_at [OF I] by (simp add: A N)
  show "distinct (map fst (surfaces s'))" by (rule D)
  have "removal_ok s' t = removal_ok s t" for t by (simp add: removal_ok_def A N split: task.splits)
  then show "\<forall>p \<in> set (tasks s'). removal_ok s' (snd p)"
    using I T by (force simp: ids_ok_def removal_ok_def split: task.splits)
qed

text \<open>The combined property of one operation: \<open>ids_ok\<close> after, and every agent takes one
  lifecycle step. An operation that keeps the lice of every page, the id counter and the
  pending removals has it.\<close>

lemma life_frame:
  assumes I: "ids_ok s" and D: "distinct (map fst (surfaces s'))" and A: "lice_at s' = lice_at s"
    and N: "next_lid s' = next_lid s"
    and T: "\<forall>p \<in> set (tasks s'). snd p \<in> snd ` set (tasks s) \<or> (\<forall>el i. snd p \<noteq> Remove_Timeout el i)"
  shows "ids_ok s' \<and> (\<forall>el i. lc_step s s' el i)"
  using ids_ok_transfer [OF I D A N T] lc_same [OF agent_same [OF A]] by blast

lemma life_schedule:
  assumes W: "wl_inv s" and I: "ids_ok s" and nr: "\<forall>el i. t \<noteq> Remove_Timeout el i"
  shows "ids_ok (snd (schedule t s)) \<and> (\<forall>el i. lc_step s (snd (schedule t s)) el i)"
proof (rule life_frame [OF I])
  show "distinct (map fst (surfaces (snd (schedule t s))))" using W by (simp add: schedule_def wl_inv_def)
  show "lice_at (snd (schedule t s)) = lice_at s" by (rule lice_at_same) (simp add: schedule_def)
  show "next_lid (snd (schedule t s)) = next_lid s" by (simp add: schedule_def)
  show "\<forall>p \<in> set (tasks (snd (schedule t s))). snd p \<in> snd ` set (tasks s) \<or> (\<forall>el i. snd p \<noteq> Remove_Timeout el i)"
    using nr by (auto simp: schedule_def)
qed

lemma life_ensureLayers:
  assumes W: "wl_inv s" and I: "ids_ok s"
  shows "ids_ok (snd (ensureLayersOnVisiblePages v s)) \<and> (\<forall>el i. lc_step s (snd (ensureLayersOnVisiblePages v s)) el i)"
proof (rule life_frame [OF I])
  show "distinct (map fst (surfaces (snd (ensureLayersOnVisiblePages v s))))"
    using wl_inv_ensureLayers [OF W, of v] by (simp add: wl_inv_def)
  show "lice_at (snd (ensureLayersOnVisiblePages v s)) = lice_at s"
    by (simp add: ensureLayersOnVisiblePages_def Let_def lice_at_fold_ensure)
  show "next_lid (snd (ensureLayersOnVisiblePages v s)) = next_lid s"
    by (simp add: ensureLayersOnVisiblePages_def Let_def)
  show "\<forall>p \<in> set (tasks (snd (ensureLayersOnVisiblePages v s))). snd p \<in> snd ` set (tasks s) \<or>
      (\<forall>el i. snd p \<noteq> Remove_Timeout el i)"
    by (simp add: ensureLayersOnVisiblePages_def Let_def)
qed

lemma life_detach:
  assumes W: "wl_inv s" and I: "ids_ok s"
  shows "ids_ok (detach el p s) \<and> (\<forall>el' i. lc_step s (detach el p s) el' i)"
proof (rule life_frame [OF I])
  show "distinct (map fst (surfaces (detach el p s)))" using wl_inv_detach [OF W] by (simp add: wl_inv_def)
  show "lice_at (detach el p s) = lice_at s" by (rule lice_at_detach)
  show "next_lid (detach el p s) = next_lid s" by (simp add: detach_def split: option.splits)
  show "\<forall>q \<in> set (tasks (detach el p s)). snd q \<in> snd ` set (tasks s) \<or> (\<forall>el i. snd q \<noteq> Remove_Timeout el i)"
    by (simp add: detach_def split: option.splits)
qed

lemma life_step_all_frames:
  assumes I: "ids_ok s" and W: "wl_inv s"
  shows "ids_ok (step_all_frames s)"
proof (rule ids_okI)
  show "distinct (map lid (lice_at (step_all_frames s) el)) \<and>
        (\<forall>L \<in> set (lice_at (step_all_frames s) el). lid L < next_lid (step_all_frames s))" for el
    using ids_ok_lice_at [OF I, of el] by (simp add: lice_at_step_all_frames comp_def)
  show "distinct (map fst (surfaces (step_all_frames s)))"
    using W step_all_frames_keys(1) [of s] by (simp add: wl_inv_def)
  have "removal_ok (step_all_frames s) t = removal_ok s t" for t
    by (simp add: removal_ok_def lice_at_step_all_frames split: task.splits)
  then show "\<forall>p \<in> set (tasks (step_all_frames s)). removal_ok (step_all_frames s) (snd p)"
    using I by (simp add: ids_ok_def)
qed

section \<open>The frame loop, the bootstrap and the removal callback\<close>

lemma life_loop:
  assumes W: "wl_inv s" and I: "ids_ok s" and ts: "lastT s \<le> ts"
  shows "ids_ok (loop v ts s) \<and> (\<forall>el i. lc_step s (loop v ts s) el i)"
proof (cases "running s")
  case False
  with I show ?thesis by (simp add: loop_def lc_same)
next
  case True
  define dt where "dt = frame_dt (if lastT s = 0 then ts else lastT s) ts"
  define s1 where "s1 = s\<lparr>lastT := ts, frameClock := frameClock s + dt * 1000\<rparr>"
  define s2 where "s2 = (if frameMs CFG \<le> frameClock s1 then (step_all_frames s1)\<lparr>frameClock := 0\<rparr> else s1)"
  have w1: "wl_inv s1" by (rule wl_inv_congI [OF W]) (simp_all add: s1_def)
  have i1: "ids_ok s1" using I ids_ok_cong [of s1 s] by (simp add: s1_def)
  have a1: "agent s1 = agent s" by (rule agent_surfaces) (simp add: s1_def)
  have dt: "\<bar>dt\<bar> \<le> 0.05" using ts unfolding dt_def by (intro frame_dt_abs) simp
  have w2: "wl_inv s2"
    using w1 wl_inv_step_all_frames [OF w1] by (auto simp: s2_def intro: wl_inv_congI)
  have i2: "ids_ok s2"
    using i1 life_step_all_frames [OF i1 w1]
      ids_ok_cong [of "(step_all_frames s1)\<lparr>frameClock := 0\<rparr>" "step_all_frames s1"]
    by (simp add: s2_def)
  have a2: "agent s2 = agent s1"
    using agent_step_all_frames [of s1]
      agent_surfaces [of "(step_all_frames s1)\<lparr>frameClock := 0\<rparr>" "step_all_frames s1"]
    by (simp add: s2_def)
  have n2: "next_lid s2 = next_lid s" by (simp add: s2_def s1_def step_all_frames_def)
  have h3: "ids_ok (tick v dt s2) \<and> (\<forall>el i. lc_step s2 (tick v dt s2) el i)" by (rule tick_life [OF w2 i2])
  have w3: "wl_inv (tick v dt s2)" using w2 dt by (rule wl_inv_tick)
  have h4: "ids_ok (snd (schedule Frame_Request (tick v dt s2))) \<and>
      (\<forall>el i. lc_step (tick v dt s2) (snd (schedule Frame_Request (tick v dt s2))) el i)"
    using life_schedule [OF w3 conjunct1 [OF h3]] by simp
  have a4: "agent (snd (schedule Frame_Request (tick v dt s2))) = agent (tick v dt s2)"
    by (rule agent_surfaces) (simp add: schedule_def)
  have L: "loop v ts s = snd (schedule Frame_Request (tick v dt s2))"
    using True by (simp add: loop_def Let_def dt_def s1_def s2_def)
  have "lc_step s (loop v ts s) el i" for el i
    using lc_post [OF lc_pre [OF _ n2 conjunct2 [OF h3, rule_format]] a4] a1 a2 by (simp add: L)
  with h4 L show ?thesis by simp
qed

lemma life_bindFlipbookEvents:
  assumes W: "wl_inv s" and I: "ids_ok s"
  shows "ids_ok (bindFlipbookEvents s) \<and> (\<forall>el i. lc_step s (bindFlipbookEvents s) el i)"
proof (rule life_frame [OF I])
  show "distinct (map fst (surfaces (bindFlipbookEvents s)))"
    using wl_inv_bindFlipbookEvents [OF W] by (simp add: wl_inv_def)
  show "lice_at (bindFlipbookEvents s) = lice_at s"
    by (rule lice_at_same) (simp add: bindFlipbookEvents_def Let_def schedule_def)
  show "next_lid (bindFlipbookEvents s) = next_lid s"
    by (simp add: bindFlipbookEvents_def Let_def schedule_def)
  show "\<forall>p \<in> set (tasks (bindFlipbookEvents s)). snd p \<in> snd ` set (tasks s) \<or> (\<forall>el i. snd p \<noteq> Remove_Timeout el i)"
    by (auto simp: bindFlipbookEvents_def Let_def schedule_def)
qed

lemma life_start:
  assumes W: "wl_inv s" and I: "ids_ok s"
  shows "ids_ok (start v s) \<and> (\<forall>el i. lc_step s (start v s) el i)"
proof (rule life_frame [OF I])
  show "distinct (map fst (surfaces (start v s)))" using wl_inv_start [OF W] by (simp add: wl_inv_def)
  show "lice_at (start v s) = lice_at s" by (rule lice_at_same) (simp add: start_def schedule_def)
  show "next_lid (start v s) = next_lid s" by (simp add: start_def schedule_def)
  show "\<forall>p \<in> set (tasks (start v s)). snd p \<in> snd ` set (tasks s) \<or> (\<forall>el i. snd p \<noteq> Remove_Timeout el i)"
    by (auto simp: start_def schedule_def)
qed

lemma life_start_resume:
  assumes W: "wl_inv s" and I: "ids_ok s"
  shows "ids_ok (start_resume v s) \<and> (\<forall>el i. lc_step s (start_resume v s) el i)"
proof (rule life_frame [OF I])
  let ?s1 = "bindFlipbookEvents (snd (ensureLayersOnVisiblePages v s))"
  have la: "lice_at ?s1 = lice_at s"
    using lice_at_fold_ensure [of "getVisiblePages v" s]
      lice_at_same [of ?s1 "fold ensure_one (getVisiblePages v) s"]
    by (simp add: bindFlipbookEvents_def Let_def schedule_def ensureLayersOnVisiblePages_def)
  show "distinct (map fst (surfaces (start_resume v s)))"
    using wl_inv_start_resume [OF W, of v] by (simp add: wl_inv_def)
  show "lice_at (start_resume v s) = lice_at s"
    using la lice_at_same [of "start_resume v s" ?s1]
    by (simp add: start_resume_def Let_def case_prod_beta schedule_def)
  show "next_lid (start_resume v s) = next_lid s"
    by (simp add: start_resume_def Let_def case_prod_beta schedule_def bindFlipbookEvents_def
        ensureLayersOnVisiblePages_def)
  show "\<forall>p \<in> set (tasks (start_resume v s)). snd p \<in> snd ` set (tasks s) \<or> (\<forall>el i. snd p \<noteq> Remove_Timeout el i)"
    by (auto simp: start_resume_def Let_def case_prod_beta schedule_def bindFlipbookEvents_def
        ensureLayersOnVisiblePages_def)
qed

lemma life_remove:
  assumes W: "wl_inv s" and I: "ids_ok s" and T: "map_of (tasks s) j = Some (Remove_Timeout el i)"
  shows "ids_ok (remove_louse el i (s\<lparr>tasks := filter (\<lambda>(k, _). k \<noteq> j) (tasks s)\<rparr>)) \<and>
         (\<forall>el' i'. lc_step s (remove_louse el i (s\<lparr>tasks := filter (\<lambda>(k, _). k \<noteq> j) (tasks s)\<rparr>)) el' i')"
proof -
  let ?s1 = "s\<lparr>tasks := filter (\<lambda>(k, _). k \<noteq> j) (tasks s)\<rparr>"
  let ?s' = "remove_louse el i ?s1"
  have la1: "lice_at ?s1 = lice_at s" by (rule lice_at_same) simp
  have la: "lice_at ?s' el' = (if el' = el then filter (\<lambda>L. lid L \<noteq> i) (lice_at s el) else lice_at s el')" for el'
    using lice_at_remove [of el i ?s1 el'] la1 by simp
  have n: "next_lid ?s' = next_lid s" by (simp add: remove_louse_def split: option.splits)
  have rem: "removal_ok s (Remove_Timeout el i)" using ids_ok_task [OF I map_of_SomeD [OF T]] by simp
  have ids: "ids_ok ?s'"
  proof (rule ids_okI)
    show "distinct (map lid (lice_at ?s' el')) \<and> (\<forall>L \<in> set (lice_at ?s' el'). lid L < next_lid ?s')" for el'
      using ids_ok_lice_at [OF I, of el'] by (auto simp: la n distinct_map_filter)
    show "distinct (map fst (surfaces ?s'))"
      using wl_inv_fire_remove [OF W T] by (simp add: wl_inv_def)
    have "removal_ok ?s' t" if "removal_ok s t" for t
      using that by (auto simp: removal_ok_def la n split: task.splits)
    moreover have "tasks ?s' = tasks ?s1" by (simp add: remove_louse_def split: option.splits)
    then have "set (tasks ?s') \<subseteq> set (tasks s)" by auto
    ultimately show "\<forall>p \<in> set (tasks ?s'). removal_ok ?s' (snd p)" using ids_ok_task [OF I] by blast
  qed
  have "lc_step s ?s' el' i'" for el' i'
  proof (cases "el' = el \<and> i' = i")
    case True
    have "agent ?s' el' i' = None" using True by (simp add: agent_def la find_filter_lid)
    moreover have "life (agent s el i) None"
    proof (cases "find (\<lambda>L. lid L = i) (lice_at s el)")
      case None
      then show ?thesis by (simp add: agent_def life.stay)
    next
      case (Some L)
      then have "L \<in> set (lice_at s el)" "lid L = i" using find_SomeD [OF Some] by simp_all
      with rem have "\<not> alive L" by (simp add: removal_ok_def)
      with Some show ?thesis by (simp add: agent_def life.removed)
    qed
    ultimately show ?thesis using True by (simp add: lc_step_def)
  next
    case False
    then have "agent ?s' el' i' = agent s el' i'" by (auto simp: agent_def la find_filter_lid)
    then show ?thesis by (rule lc_same_at)
  qed
  with ids show ?thesis by blast
qed

section \<open>Timers, listeners and events\<close>

lemma life_drop:
  assumes W: "wl_inv s" and I: "ids_ok s"
  shows "ids_ok (s\<lparr>tasks := filter P (tasks s)\<rparr>) \<and> agent (s\<lparr>tasks := filter P (tasks s)\<rparr>) = agent s"
proof -
  have "ids_ok (s\<lparr>tasks := filter P (tasks s)\<rparr>)"
    by (rule ids_ok_transfer [OF I]) (use W lice_at_same [of "s\<lparr>tasks := filter P (tasks s)\<rparr>" s] in \<open>auto simp: wl_inv_def\<close>)
  then show ?thesis using agent_surfaces [of "s\<lparr>tasks := filter P (tasks s)\<rparr>" s] by simp
qed

lemma life_run_task:
  assumes W: "wl_inv s" and I: "ids_ok s" and nr: "\<forall>el i. t \<noteq> Remove_Timeout el i"
    and fr: "t = Frame_Request \<Longrightarrow> lastT s \<le> ts"
  shows "ids_ok (run_task v ts t s) \<and> (\<forall>el i. lc_step s (run_task v ts t s) el i)"
  using W I nr fr spawnBurst_life [OF W I, of v] births_lc
  by (cases t) (simp_all add: run_task_def life_start_resume life_ensureLayers life_loop)

lemma life_fire:
  assumes W: "wl_inv s" and I: "ids_ok s" and h: "host_ok s (Timer j ts)"
  shows "ids_ok (fire v j ts s) \<and> (\<forall>el i. lc_step s (fire v j ts s) el i)"
proof (cases "map_of (tasks s) j")
  case None
  with I show ?thesis by (simp add: fire_def lc_same)
next
  case (Some t)
  have fr: "t = Frame_Request \<Longrightarrow> lastT s \<le> ts" using h Some by (simp add: host_ok_def)
  show ?thesis
  proof (cases "\<exists>el i. t = Remove_Timeout el i")
    case True
    then obtain el i where t: "t = Remove_Timeout el i" by blast
    have "ids_ok (remove_louse el i (s\<lparr>tasks := filter (\<lambda>(k, _). k \<noteq> j) (tasks s)\<rparr>)) \<and>
        (\<forall>el' i'. lc_step s (remove_louse el i (s\<lparr>tasks := filter (\<lambda>(k, _). k \<noteq> j) (tasks s)\<rparr>)) el' i')"
      using life_remove [OF W I] Some t by simp
    with Some t show ?thesis by (simp add: fire_def run_task_def is_interval_def)
  next
    case False
    then have nr: "\<forall>el i. t \<noteq> Remove_Timeout el i" by blast
    let ?s1 = "if is_interval t then s else s\<lparr>tasks := filter (\<lambda>(k, _). k \<noteq> j) (tasks s)\<rparr>"
    have w1: "wl_inv ?s1" using W wl_inv_drop_task [OF W Some nr] by simp
    have i1: "ids_ok ?s1 \<and> agent ?s1 = agent s" using life_drop [OF W I] I by simp
    have n1: "next_lid ?s1 = next_lid s" by simp
    have "ids_ok (run_task v ts t ?s1) \<and> (\<forall>el i. lc_step ?s1 (run_task v ts t ?s1) el i)"
      using fr nr by (intro life_run_task [OF w1 conjunct1 [OF i1]]) simp_all
    with i1 n1 Some show ?thesis by (auto simp: fire_def intro: lc_pre)
  qed
qed

lemma life_handler:
  "wl_inv s \<Longrightarrow> ids_ok s \<Longrightarrow> ids_ok (handler v l s) \<and> (\<forall>el i. lc_step s (handler v l s) el i)"
  by (cases l) (simp_all add: handler_def life_start life_ensureLayers lc_same)

lemma lice_at_handler: "lice_at (handler v l s) = lice_at s"
proof (cases l)
  case On_DOMContentLoaded
  then show ?thesis by (intro lice_at_same) (simp add: handler_def start_def schedule_def)
qed (simp_all add: handler_def ensureLayersOnVisiblePages_def Let_def lice_at_fold_ensure)

lemma next_lid_handler: "next_lid (handler v l s) = next_lid s"
  by (cases l) (simp_all add: handler_def start_def schedule_def ensureLayersOnVisiblePages_def Let_def)

lemma life_fold_handler:
  "wl_inv s \<Longrightarrow> ids_ok s \<Longrightarrow>
     ids_ok (fold (\<lambda>l' s. if l' = l then handler v l s else s) ls s) \<and>
     agent (fold (\<lambda>l' s. if l' = l then handler v l s else s) ls s) = agent s \<and>
     next_lid (fold (\<lambda>l' s. if l' = l then handler v l s else s) ls s) = next_lid s"
proof (induction ls arbitrary: s)
  case Nil
  then show ?case by simp
next
  case (Cons l' ls)
  have h: "ids_ok (handler v l s) \<and> agent (handler v l s) = agent s \<and> next_lid (handler v l s) = next_lid s"
    using life_handler [OF Cons.prems, of v l] agent_same [OF lice_at_handler] next_lid_handler by simp
  have "wl_inv (handler v l s)" using Cons.prems(1) by (rule wl_inv_handler)
  with Cons h show ?case by (cases "l' = l") auto
qed

lemma life_step:
  "wl_inv s \<Longrightarrow> ids_ok s \<Longrightarrow> host_ok s e \<Longrightarrow>
     ids_ok (step v e s) \<and> (\<forall>el i. lc_step s (step v e s) el i)"
  using spawnBurst_life [of s v] births_lc life_fold_handler [of s]
  by (cases e) (auto simp: step_def dispatch_def life_fire life_start life_detach lc_same)

lemma reachable_ids_ok: "reachable s \<Longrightarrow> ids_ok s"
proof (induction rule: reachable.induct)
  case (init rs)
  then show ?case by (simp add: ids_ok_def init_state_def)
next
  case (step s e v)
  then show ?case using life_step [OF reachable_wl_inv] by blast
qed

section \<open>The lifecycle of an agent\<close>

text \<open>
  C21: the program refines the spec's agent lifecycle. In every reachable state, each
  step of the host changes each agent (page, id) by one step of \<open>life\<close>: it is born
  alive with an id never used before, an alive agent moves and may die, a dead agent
  stays where it died, and only a dead agent is removed.
\<close>

theorem step_refines_life:
  assumes "reachable s" and "host_ok s e"
  shows "life (agent s el i) (agent (step v e s) el i) \<and>
         (agent s el i = None \<and> agent (step v e s) el i \<noteq> None \<longrightarrow> next_lid s \<le> i)"
  using life_step [OF reachable_wl_inv [OF assms(1)] reachable_ids_ok [OF assms(1)] assms(2)]
  by (simp add: lc_step_def)

theorem step_refines_life_witness:
  "reachable demo_run \<and> life (agent demo_run 0 0) (agent (step (demo_view 1000) Api_Burst demo_run) 0 0)"
proof -
  have h: "host_ok demo_run Api_Burst" by (simp add: host_ok_def)
  show ?thesis using step_refines_life [OF demo_run_reachable h] demo_run_reachable by blast
qed

end
