(* ===== verification/PageFX.thy ===== *)
theory PageFX
  imports Prelude
begin

text \<open>
  The cosmetic overlay module \<open>src/page-variation.js\<close>. The whole file is commented out
  in the repository; this theory translates the commented code as written, which is what
  runs once the comment markers are removed. The module decorates every flipbook page
  once with random overlays (prepended \<open><i class="fx ..."></i>\<close>), a lot stamp and a
  crease (appended), marks the page with \<open>data-fx-applied\<close>, is meant to retry up to 80
  times while Turn.js has not built the pages yet (it never does: C22), and re-applies after
  every \<open>turned\<close> event.

  The DOM below a page is a tree of \<open>node\<close>s (tag, class list, text, children);
  \<open>querySelector\<close> is a search of the descendants, \<open>remove\<close> drops a subtree. A page is
  a record of its classes, its \<open>dataset.fxApplied\<close> and its children; the document is
  the list of the flipbook's elements in document order. Strings are byte strings (the
  stamp's bullet is its UTF-8 encoding). Class names passed to \<open>ensureOverlay\<close> are
  single class tokens.
\<close>

section \<open>The DOM below a page\<close>

datatype node = Elem (tag: string) (classes: "string list") (content: string) (kids: "node list")

text \<open>\<open>el.querySelector(sel)\<close>, as the code uses it (a truth value): some descendant,
  at any depth, satisfies the selector.\<close>

fun has_desc :: "(node \<Rightarrow> bool) \<Rightarrow> node list \<Rightarrow> bool" where
  "has_desc P [] = False"
| "has_desc P (Elem t cs x ch # ns) = (P (Elem t cs x ch) \<or> has_desc P ch \<or> has_desc P ns)"

text \<open>\<open>p.querySelectorAll(".fx").forEach(n => n.remove())\<close> (line 38): every descendant
  with class \<open>fx\<close> is detached with its subtree.\<close>

fun strip_fx :: "node list \<Rightarrow> node list" where
  "strip_fx [] = []"
| "strip_fx (Elem t cs x ch # ns) =
     (if ''fx'' \<in> set cs then strip_fx ns else Elem t cs x (strip_fx ch) # strip_fx ns)"

record fx_page =
  pclasses :: "string list"
  fxApplied :: "string option" \<comment> \<open>\<open>p.dataset.fxApplied\<close>; \<open>None\<close> when absent\<close>
  pkids :: "node list"

text \<open>The selector \<open>.flipbook .page:not(.hard), .flipbook .parchment\<close> (lines 31, 72) on
  an element of the flipbook, and the filter \<open>!p.dataset.fxApplied\<close> (line 32): absent or
  empty is falsy.\<close>

definition fx_selected :: "fx_page \<Rightarrow> bool" where
  "fx_selected p \<longleftrightarrow>
     (''page'' \<in> set (pclasses p) \<and> ''hard'' \<notin> set (pclasses p)) \<or> ''parchment'' \<in> set (pclasses p)"

definition fx_pending :: "fx_page \<Rightarrow> bool" where
  "fx_pending p \<longleftrightarrow> (case fxApplied p of None \<Rightarrow> True | Some v \<Rightarrow> v = [])"

definition LIGHT_VARIANTS :: "string list" where
  "LIGHT_VARIANTS = [''fx--oily'', ''fx--mildew'', ''fx--holes'']"

section \<open>Overlays, stamp and crease\<close>

text \<open>\<open>ensureOverlay(page, cls)\<close> (lines 5--12).\<close>

definition ensureOverlay :: "fx_page \<Rightarrow> string \<Rightarrow> fx_page" where
  "ensureOverlay p cls =
     (if has_desc (\<lambda>n. ''fx'' \<in> set (classes n) \<and> cls \<in> set (classes n)) (pkids p) then p
      else p\<lparr>pkids := Elem ''i'' [''fx'', cls] [] [] # pkids p\<rparr>)"

text \<open>\<open>String(n)\<close> of a natural number: its decimal digits.\<close>

fun dec :: "nat \<Rightarrow> string" where
  "dec n = (if n < 10 then [char_of (48 + n)] else dec (n div 10) @ [char_of (48 + n mod 10)])"

text \<open>\<open>String(y)\<close> of an integer.\<close>

definition js_string_int :: "int \<Rightarrow> string" where
  "js_string_int y = (if y < 0 then ''-'' @ dec (nat (- y)) else dec (nat y))"

text \<open>\<open>s.padStart(n, c)\<close> with a one-character pad.\<close>

definition padStart :: "nat \<Rightarrow> char \<Rightarrow> string \<Rightarrow> string" where
  "padStart n c s = replicate (n - length s) c @ s"

text \<open>The stamp text of line 18: \<open>LOT ${String(1000 + index).padStart(4,"0")} \<bullet> ${year}\<close>;
  the bullet U+2022 is the UTF-8 sequence E2 80 A2.\<close>

definition stamp_text :: "nat \<Rightarrow> int \<Rightarrow> string" where
  "stamp_text index year =
     ''LOT '' @ padStart 4 (CHR ''0'') (dec (1000 + index)) @ '' '' @
     map char_of [226 :: nat, 128, 162] @ '' '' @ js_string_int year"

text \<open>\<open>ensureStamp(page, index)\<close> (lines 14--20); \<open>new Date().getFullYear()\<close> is the
  parameter \<open>year\<close>.\<close>

definition ensureStamp :: "fx_page \<Rightarrow> nat \<Rightarrow> int \<Rightarrow> fx_page" where
  "ensureStamp p index year =
     (if has_desc (\<lambda>n. ''page-stamp'' \<in> set (classes n)) (pkids p) then p
      else p\<lparr>pkids := pkids p @ [Elem ''div'' [''page-stamp''] (stamp_text index year) []]\<rparr>)"

text \<open>\<open>ensureCrease(page)\<close> (lines 22--27).\<close>

definition ensureCrease :: "fx_page \<Rightarrow> fx_page" where
  "ensureCrease p =
     (if has_desc (\<lambda>n. ''page-crease'' \<in> set (classes n)) (pkids p) then p
      else p\<lparr>pkids := pkids p @ [Elem ''i'' [''page-crease''] [] []]\<rparr>)"

text \<open>\<open>LIGHT_VARIANTS[Math.floor(r * LIGHT_VARIANTS.length)]\<close> (line 43): an index out of
  range reads \<open>undefined\<close>, which the class template turns into the class \<open>undefined\<close>.\<close>

definition light_variant :: "real \<Rightarrow> string" where
  "light_variant r =
     (let k = \<lfloor>r * real (length LIGHT_VARIANTS)\<rfloor> in
      if 0 \<le> k \<and> k < int (length LIGHT_VARIANTS) then LIGHT_VARIANTS ! nat k else ''undefined'')"

section \<open>applyToPages\<close>

text \<open>The body of \<open>pages.forEach((p, i) => ...)\<close> (lines 37--48), with the draws of
  \<open>Math.random()\<close> in the order the code makes them (two on line 43).\<close>

definition fx_decorate :: "int \<Rightarrow> nat \<Rightarrow> fx_page \<Rightarrow> draws \<Rightarrow> fx_page \<times> draws" where
  "fx_decorate year i p rs0 =
     (let p0 = p\<lparr>pkids := strip_fx (pkids p)\<rparr>;
          (r1, rs1) = js_random rs0;
          p1 = (if r1 < 0.45 then ensureOverlay p0 ''fx--edge'' else p0);
          (r2, rs2) = js_random rs1;
          p2 = (if r2 < 0.35 then ensureOverlay p1 ''fx--grit'' else p1);
          (r3, rs3) = js_random rs2;
          (p3, rs4) = (if r3 < 0.5 then (let (r4, rs4) = js_random rs3 in (ensureOverlay p2 (light_variant r4), rs4))
                       else (p2, rs3));
          (r5, rs5) = js_random rs4;
          p4 = (if r5 < 0.55 then ensureStamp p3 i year else p3);
          (r6, rs6) = js_random rs5;
          p5 = (if r6 < 0.6 then ensureCrease p4 else p4)
      in (p5\<lparr>fxApplied := Some ''1''\<rparr>, rs6))"

text \<open>The \<open>forEach\<close> over the selected pending pages, in document order, with their
  index \<open>i\<close> among them; the other elements are left alone.\<close>

fun fx_pass :: "int \<Rightarrow> nat \<Rightarrow> fx_page list \<Rightarrow> draws \<Rightarrow> fx_page list \<times> draws" where
  "fx_pass year i [] rs = ([], rs)"
| "fx_pass year i (p # ps) rs =
     (if fx_selected p \<and> fx_pending p then
        (let (p', rs1) = fx_decorate year i p rs; (ps', rs2) = fx_pass year (Suc i) ps rs1 in (p' # ps', rs2))
      else (let (ps', rs2) = fx_pass year i ps rs in (p # ps', rs2)))"

text \<open>\<open>applyToPages()\<close> (lines 29--52): \<open>false\<close> when no page is pending.\<close>

definition applyToPages :: "int \<Rightarrow> fx_page list \<Rightarrow> draws \<Rightarrow> bool \<times> fx_page list \<times> draws" where
  "applyToPages year d rs =
     (if filter (\<lambda>p. fx_selected p \<and> fx_pending p) d = [] then (False, d, rs)
      else (let (d', rs') = fx_pass year 0 d rs in (True, d', rs')))"

section \<open>The jQuery event registry of the flipbook\<close>

text \<open>The handlers bound on \<open>$(".flipbook")\<close>, in binding order: event type, namespaces,
  and whose handler it is. Both scripts bind there: woodlouse (lines 306--307 of
  \<open>src/woodlouse.js\<close>) and this module (line 59).\<close>

datatype jq_handler = Fx_Reapply | Wl_Turning | Wl_Turned

type_synonym jq_events = "(string \<times> string list \<times> jq_handler) list"

text \<open>\<open>.off("type.ns")\<close>: removes the handlers of that type bound with that namespace.\<close>

definition jq_off :: "string \<Rightarrow> string \<Rightarrow> jq_events \<Rightarrow> jq_events" where
  "jq_off ty ns hs = filter (\<lambda>(t, nss, h). \<not> (t = ty \<and> ns \<in> set nss)) hs"

text \<open>\<open>.on("type.ns1.ns2", h)\<close>: appends a handler.\<close>

definition jq_on :: "string \<Rightarrow> string list \<Rightarrow> jq_handler \<Rightarrow> jq_events \<Rightarrow> jq_events" where
  "jq_on ty nss h hs = hs @ [(ty, nss, h)]"

text \<open>Line 59: \<open>$flip.off("turned._fx").on("turned._fx", function(){ applyToPages(); })\<close>.\<close>

definition fx_rebind :: "jq_events \<Rightarrow> jq_events" where
  "fx_rebind hs = jq_on ''turned'' [''_fx''] Fx_Reapply (jq_off ''turned'' ''_fx'' hs)"

text \<open>The jQuery branch of woodlouse's \<open>bindFlipbookEvents\<close> (lines 305--308).\<close>

definition wl_bind_jq :: "jq_events \<Rightarrow> jq_events" where
  "wl_bind_jq hs = jq_on ''turned'' [] Wl_Turned (jq_on ''turning'' [] Wl_Turning hs)"

section \<open>The module's state and waitAndApply\<close>

text \<open>The argument of \<open>waitAndApply(attempts = 0)\<close>: a number when the retry timer calls
  it (line 62), the \<open>Event\<close> object when the \<open>DOMContentLoaded\<close> or \<open>load\<close> listener
  calls it (lines 66--67). \<open>attempts < 80\<close> on an \<open>Event\<close> compares \<open>NaN\<close>: false.\<close>

datatype wa_arg = Attempt nat | Listener_Event

definition js_lt80 :: "wa_arg \<Rightarrow> bool" where
  "js_lt80 a = (case a of Attempt n \<Rightarrow> n < 80 | Listener_Event \<Rightarrow> False)"

record fx_state =
  fx_doc :: "fx_page list" \<comment> \<open>the flipbook's elements, in document order\<close>
  fx_jq :: "jq_events option" \<comment> \<open>\<open>None\<close>: no \<open>window.jQuery\<close> or no \<open>.flipbook\<close>\<close>
  fx_rng :: draws
  fx_timers :: "nat list" \<comment> \<open>pending \<open>setTimeout(() => waitAndApply(n), 100)\<close>, by \<open>n\<close>\<close>

text \<open>\<open>applyToPages()\<close> run for its effect on the state.\<close>

definition fx_apply :: "int \<Rightarrow> fx_state \<Rightarrow> bool \<times> fx_state" where
  "fx_apply year s =
     (let (ok, d, rs) = applyToPages year (fx_doc s) (fx_rng s) in (ok, s\<lparr>fx_doc := d, fx_rng := rs\<rparr>))"

text \<open>\<open>waitAndApply(attempts)\<close> (lines 54--64).\<close>

definition waitAndApply :: "int \<Rightarrow> wa_arg \<Rightarrow> fx_state \<Rightarrow> fx_state" where
  "waitAndApply year a s =
     (let (ok, s1) = fx_apply year s;
          s2 = (case fx_jq s1 of None \<Rightarrow> s1 | Some hs \<Rightarrow> s1\<lparr>fx_jq := Some (fx_rebind hs)\<rparr>)
      in if \<not> ok \<and> js_lt80 a
         then s2\<lparr>fx_timers := fx_timers s2 @ [(case a of Attempt n \<Rightarrow> Suc n | Listener_Event \<Rightarrow> 0)]\<rparr>
         else s2)"

text \<open>\<open>js_index xs k\<close>: \<open>xs[k]\<close> on an array, \<open>undefined\<close> (\<open>None\<close>) out of range.\<close>

definition js_index :: "'a list \<Rightarrow> int \<Rightarrow> 'a option" where
  "js_index xs k = (if 0 \<le> k \<and> k < int (length xs) then Some (xs ! nat k) else None)"

text \<open>\<open>PageFX.add(pageIndex, className)\<close> (lines 71--76): the positions in the document of
  the selected elements, the \<open>pageIndex\<close>-th of them, or nothing when there is none.\<close>

definition fx_add :: "int \<Rightarrow> string \<Rightarrow> fx_state \<Rightarrow> fx_state" where
  "fx_add k cls s =
     (let d = fx_doc s; all = filter (\<lambda>j. fx_selected (d ! j)) [0..<length d] in
      case js_index all k of
        None \<Rightarrow> s
      | Some j \<Rightarrow> s\<lparr>fx_doc := d[j := (ensureOverlay (d ! j) cls)\<lparr>fxApplied := Some ''1''\<rparr>]\<rparr>)"

text \<open>A \<open>turned\<close> event on the flipbook: every handler bound for it runs, in binding order;
  each handler of this module is an \<open>applyToPages()\<close>, woodlouse's handlers act on the
  other script's state.\<close>

definition fx_turned :: "int \<Rightarrow> fx_state \<Rightarrow> fx_state" where
  "fx_turned year s =
     (case fx_jq s of
        None \<Rightarrow> s
      | Some hs \<Rightarrow> fold (\<lambda>(t, nss, h) s. if t = ''turned'' \<and> h = Fx_Reapply then snd (fx_apply year s) else s) hs s)"

section \<open>The host\<close>

text \<open>What can happen to the module: the two listeners, a pending retry timer firing, a
  \<open>turned\<close> event, the console API, and Turn.js (or anything else) rebuilding the
  flipbook's elements.\<close>

datatype fx_event = Fx_DOMContentLoaded | Fx_Load | Fx_Timer nat | Fx_Turned
  | Fx_Add int string | Fx_Reapply_Call | Fx_Dom "fx_page list"

fun fx_step :: "int \<Rightarrow> fx_event \<Rightarrow> fx_state \<Rightarrow> fx_state" where
  "fx_step y Fx_DOMContentLoaded s = waitAndApply y Listener_Event s"
| "fx_step y Fx_Load s = waitAndApply y Listener_Event s"
| "fx_step y (Fx_Timer i) s =
     (if i < length (fx_timers s)
      then waitAndApply y (Attempt (fx_timers s ! i)) (s\<lparr>fx_timers := take i (fx_timers s) @ drop (Suc i) (fx_timers s)\<rparr>)
      else s)"
| "fx_step y Fx_Turned s = fx_turned y s"
| "fx_step y (Fx_Add k c) s = fx_add k c s"
| "fx_step y Fx_Reapply_Call s = snd (fx_apply y s)"
| "fx_step y (Fx_Dom d) s = s\<lparr>fx_doc := d\<rparr>"

definition fx_init :: "fx_page list \<Rightarrow> jq_events option \<Rightarrow> draws \<Rightarrow> fx_state" where
  "fx_init d jq rs = \<lparr>fx_doc = d, fx_jq = jq, fx_rng = rs, fx_timers = []\<rparr>"

inductive fx_reach :: "fx_state \<Rightarrow> bool" where
  init: "fx_reach (fx_init d jq rs)"
| step: "fx_reach s \<Longrightarrow> fx_reach (fx_step y e s)"

section \<open>Reading a stamp back\<close>

text \<open>The reader of a stamp: the digits after \<open>LOT \<close>, as a number.\<close>

definition lot_digit :: "char \<Rightarrow> bool" where
  "lot_digit c \<longleftrightarrow> (48 :: nat) \<le> of_char c \<and> (of_char c :: nat) \<le> 57"

definition dec_val :: "string \<Rightarrow> nat" where
  "dec_val ds = foldl (\<lambda>a c. 10 * a + (of_char c - 48)) (0 :: nat) ds"

definition lot_of :: "string \<Rightarrow> nat option" where
  "lot_of s =
     (if take 4 s = ''LOT '' then
        (let ds = takeWhile lot_digit (drop 4 s) in if ds = [] then None else Some (dec_val ds))
      else None)"

text \<open>Children that no \<open>.fx\<close> query can reach.\<close>

definition fx_free :: "node list \<Rightarrow> bool" where
  "fx_free ns \<longleftrightarrow> \<not> has_desc (\<lambda>n. ''fx'' \<in> set (classes n)) ns"

text \<open>The nodes the module creates: an overlay of one of its five classes, the stamp of
  the page's index, the crease.\<close>

definition FX_CLASSES :: "string list" where
  "FX_CLASSES = [''fx--edge'', ''fx--grit''] @ LIGHT_VARIANTS"

definition fx_overlay :: "node \<Rightarrow> bool" where
  "fx_overlay n \<longleftrightarrow> n \<in> set (map (\<lambda>c. Elem ''i'' [''fx'', c] [] []) FX_CLASSES)"

definition stamp_node :: "nat \<Rightarrow> int \<Rightarrow> node" where
  "stamp_node i y = Elem ''div'' [''page-stamp''] (stamp_text i y) []"

definition crease_node :: node where
  "crease_node = Elem ''i'' [''page-crease''] [] []"

text \<open>The children of a decorated page: overlays in front of the old children (less their
  overlays), stamp and crease behind them.\<close>

definition fx_shape :: "node list \<Rightarrow> nat \<Rightarrow> int \<Rightarrow> node list \<Rightarrow> bool" where
  "fx_shape K i y ns \<longleftrightarrow>
     (\<exists>ovs ts. ns = ovs @ K @ ts \<and> list_all fx_overlay ovs \<and> list_all (\<lambda>n. n = stamp_node i y \<or> n = crease_node) ts)"

text \<open>The DOM that woodlouse puts on a page (\<open>src/woodlouse.js\<close>): its layer, a
  \<open>div.woodlouse-layer\<close> appended to the page (lines 73--75), holding one
  \<open>div.woodlouse\<close> per louse (lines 98--102), which gets the class
  \<open>woodlouse--despawn\<close> when it dies (line 239).\<close>

definition wl_sprite :: "bool \<Rightarrow> node" where
  "wl_sprite despawning = Elem ''div'' (''woodlouse'' # (if despawning then [''woodlouse--despawn''] else [])) [] []"

definition wl_layer :: "bool list \<Rightarrow> node" where
  "wl_layer ls = Elem ''div'' [''woodlouse-layer''] [] (map wl_sprite ls)"

text \<open>An element keeps its children that no \<open>.fx\<close> query reaches.\<close>

definition fx_kept :: "fx_page \<Rightarrow> fx_page \<Rightarrow> bool" where
  "fx_kept p p' \<longleftrightarrow> (\<forall>n \<in> set (pkids p). fx_free [n] \<longrightarrow> n \<in> set (pkids p'))"

text \<open>What \<open>applyToPages\<close> does to one element of the flipbook: nothing, or, to a
  selected pending page, keep its classes and its children free of \<open>.fx\<close> and mark it.\<close>

definition fx_upd :: "fx_page \<Rightarrow> fx_page \<Rightarrow> bool" where
  "fx_upd p p' \<longleftrightarrow>
     (if fx_selected p \<and> fx_pending p
      then pclasses p' = pclasses p \<and> fxApplied p' = Some ''1'' \<and> fx_kept p p'
      else p' = p)"

text \<open>What every operation of the module does to the document: its length stays, and each
  element keeps its children free of \<open>.fx\<close>.\<close>

definition fx_keeps :: "fx_page list \<Rightarrow> fx_page list \<Rightarrow> bool" where
  "fx_keeps d d' \<longleftrightarrow> list_all2 fx_kept d d'"

text \<open>The retry budget of the pending timers: a timer for attempt \<open>n\<close> can lead to at most
  \<open>81 - n\<close> more timers firing.\<close>

definition retry_budget :: "fx_state \<Rightarrow> nat" where
  "retry_budget s = sum_list (map (\<lambda>n. Suc (80 - n)) (fx_timers s))"

fun fires :: "fx_event \<Rightarrow> fx_state \<Rightarrow> nat" where
  "fires (Fx_Timer i) s = (if i < length (fx_timers s) then 1 else 0)"
| "fires e s = 0"

text \<open>The number of retry timers that fire along a run of the host.\<close>

fun fx_firings :: "int \<Rightarrow> fx_event list \<Rightarrow> fx_state \<Rightarrow> nat" where
  "fx_firings y [] s = 0"
| "fx_firings y (e # es) s = fires e s + fx_firings y es (fx_step y e s)"

text \<open>Interleavings of the two scripts' bindings on the flipbook.\<close>

datatype jq_op = Wl_Bind | Fx_Bind

fun jq_run :: "jq_op list \<Rightarrow> jq_events \<Rightarrow> jq_events" where
  "jq_run [] hs = hs"
| "jq_run (Wl_Bind # ops) hs = jq_run ops (wl_bind_jq hs)"
| "jq_run (Fx_Bind # ops) hs = jq_run ops (fx_rebind hs)"

text \<open>The bindings on the flipbook are well formed when the module's handler is exactly
  the one line 59 binds and no other handler carries its namespace.\<close>

definition jq_ok :: "jq_events \<Rightarrow> bool" where
  "jq_ok hs \<longleftrightarrow> list_all (\<lambda>(t, nss, h). if h = Fx_Reapply then t = ''turned'' \<and> nss = [''_fx''] else ''_fx'' \<notin> set nss) hs"

text \<open>A page as Turn.js builds it, before decoration, and the demo runs of the claims.\<close>

abbreviation fx_demo_page :: fx_page where
  "fx_demo_page \<equiv> \<lparr>pclasses = [''page''], fxApplied = None, pkids = []\<rparr>"

abbreviation fx_demo_first :: fx_state where
  "fx_demo_first \<equiv> fx_step 2025 Fx_Reapply_Call (fx_init [fx_demo_page] None (sconst 0))"

section \<open>Lemmas on the DOM\<close>

lemma has_desc_append [simp]: "has_desc P (xs @ ys) \<longleftrightarrow> has_desc P xs \<or> has_desc P ys"
  by (induction P xs rule: has_desc.induct) auto

lemma strip_fx_append [simp]: "strip_fx (xs @ ys) = strip_fx xs @ strip_fx ys"
  by (induction xs rule: strip_fx.induct) auto

lemma strip_fx_free: "fx_free (strip_fx ns)"
  by (induction ns rule: strip_fx.induct) (auto simp: fx_free_def)

lemma strip_fx_id: "fx_free ns \<Longrightarrow> strip_fx ns = ns"
  by (induction ns rule: strip_fx.induct) (auto simp: fx_free_def)

lemma fx_free_Cons: "fx_free (n # ns) \<longleftrightarrow> fx_free [n] \<and> fx_free ns"
  by (cases n) (auto simp: fx_free_def)

lemma strip_fx_keeps: "n \<in> set ns \<Longrightarrow> fx_free [n] \<Longrightarrow> n \<in> set (strip_fx ns)"
proof (induction ns rule: strip_fx.induct)
  case (2 t cs x ch ns)
  then show ?case by (cases "n = Elem t cs x ch") (auto simp: fx_free_def strip_fx_id)
qed simp

section \<open>Decimal strings\<close>

lemma dec_nonempty [simp]: "dec n \<noteq> []"
  by (subst dec.simps) simp

declare dec.simps [simp del]

lemma dec_digits: "list_all lot_digit (dec n)"
proof (induction n rule: dec.induct)
  case (1 n)
  then show ?case by (subst dec.simps) (auto simp: list_all_iff lot_digit_def)
qed

lemma dec_val_snoc: "dec_val (xs @ [c]) = 10 * dec_val xs + (of_char c - 48)"
  by (simp add: dec_val_def)

lemma dec_val_dec: "dec_val (dec n) = n"
proof (induction n rule: dec.induct)
  case (1 n)
  show ?case
  proof (cases "n < 10")
    case True
    then show ?thesis by (subst dec.simps) (simp add: dec_val_def)
  next
    case False
    then have "dec_val (dec n) = 10 * (n div 10) + n mod 10"
      using 1 by (subst dec.simps) (simp add: dec_val_snoc)
    then show ?thesis by simp
  qed
qed

lemma dec_length: "10 ^ k \<le> n \<Longrightarrow> k < length (dec n)"
proof (induction k arbitrary: n)
  case 0
  then show ?case by (simp add: length_greater_0_conv)
next
  case (Suc k)
  have n: "10 * 10 ^ k \<le> n" using Suc.prems by simp
  have "10 ^ k \<le> n div 10" using div_le_mono [OF n, of 10] by simp
  moreover have "\<not> n < 10" using n one_le_power [of "10 :: nat" k] by linarith
  ultimately show ?case using Suc.IH [of "n div 10"] by (subst dec.simps) simp
qed

lemma padStart_lot: "padStart 4 c (dec (1000 + i)) = dec (1000 + i)"
  using dec_length [of 3 "1000 + i"] by (simp add: padStart_def)

lemma takeWhile_digits: "list_all lot_digit ds \<Longrightarrow> \<not> lot_digit c \<Longrightarrow> takeWhile lot_digit (ds @ c # r) = ds"
  by (induction ds) auto

section \<open>The light variant\<close>

lemma length_LIGHT: "length LIGHT_VARIANTS = 3"
  by (simp add: LIGHT_VARIANTS_def)

lemma light_variant_range: "0 \<le> r \<Longrightarrow> r < 1 \<Longrightarrow> light_variant r \<in> set LIGHT_VARIANTS"
proof -
  assume r: "0 \<le> r" "r < 1"
  let ?k = "\<lfloor>r * real (length LIGHT_VARIANTS)\<rfloor>"
  have c: "0 \<le> ?k \<and> ?k < int (length LIGHT_VARIANTS)" using r by (simp add: length_LIGHT)
  then have "nat ?k < length LIGHT_VARIANTS" by linarith
  moreover have "light_variant r = LIGHT_VARIANTS ! nat ?k"
    unfolding light_variant_def Let_def by (rule if_P [OF c])
  ultimately show ?thesis by (simp add: nth_mem)
qed

section \<open>Decorating one page\<close>

lemma fx_decorate_preserve:
  assumes P0: "P (p\<lparr>pkids := strip_fx (pkids p)\<rparr>)"
    and ov: "\<And>q c. P q \<Longrightarrow> c = ''fx--edge'' \<or> c = ''fx--grit'' \<or> c = light_variant (shd (stl (stl (stl rs)))) \<Longrightarrow>
               P (ensureOverlay q c)"
    and st: "\<And>q. P q \<Longrightarrow> P (ensureStamp q i year)"
    and cr: "\<And>q. P q \<Longrightarrow> P (ensureCrease q)"
  shows "\<exists>q. P q \<and> fst (fx_decorate year i p rs) = q\<lparr>fxApplied := Some ''1''\<rparr>"
proof -
  let ?p0 = "p\<lparr>pkids := strip_fx (pkids p)\<rparr>"
  let ?c = "\<lambda>b f q. if b then f q else q"
  let ?p1 = "?c (shd rs < 0.45) (\<lambda>q. ensureOverlay q ''fx--edge'') ?p0"
  let ?p2 = "?c (shd (stl rs) < 0.35) (\<lambda>q. ensureOverlay q ''fx--grit'') ?p1"
  let ?p3 = "?c (shd (stl (stl rs)) < 0.5) (\<lambda>q. ensureOverlay q (light_variant (shd (stl (stl (stl rs)))))) ?p2"
  let ?rs4 = "if shd (stl (stl rs)) < 0.5 then stl (stl (stl (stl rs))) else stl (stl (stl rs))"
  let ?p4 = "?c (shd ?rs4 < 0.55) (\<lambda>q. ensureStamp q i year) ?p3"
  let ?p5 = "?c (shd (stl ?rs4) < 0.6) ensureCrease ?p4"
  have "fst (fx_decorate year i p rs) = ?p5\<lparr>fxApplied := Some ''1''\<rparr>"
    by (simp add: fx_decorate_def Let_def js_random_def split: prod.splits)
  moreover have "P ?p5" using P0 ov st cr by simp
  ultimately show ?thesis by blast
qed

lemma fx_decorate_draws:
  "snd (fx_decorate year i p rs) = sdrop (if shd (stl (stl rs)) < 0.5 then 6 else 5) rs"
proof -
  have "sdrop 6 rs = stl (stl (stl (stl (stl (stl rs)))))" "sdrop 5 rs = stl (stl (stl (stl (stl rs))))"
    by (simp_all add: eval_nat_numeral)
  then show ?thesis by (simp add: fx_decorate_def Let_def js_random_def split: prod.splits)
qed

lemma fx_shapeE:
  assumes "fx_shape K i y ns"
  obtains ovs ts where "ns = ovs @ K @ ts" "list_all fx_overlay ovs"
    "list_all (\<lambda>n. n = stamp_node i y \<or> n = crease_node) ts"
  using assms unfolding fx_shape_def by blast

lemma fx_shapeI:
  "ns = ovs @ K @ ts \<Longrightarrow> list_all fx_overlay ovs \<Longrightarrow> list_all (\<lambda>n. n = stamp_node i y \<or> n = crease_node) ts \<Longrightarrow>
     fx_shape K i y ns"
  unfolding fx_shape_def by blast

lemma fx_shape_ensureOverlay:
  assumes S: "fx_shape K i y (pkids q)" and c: "c \<in> set FX_CLASSES"
  shows "fx_shape K i y (pkids (ensureOverlay q c))"
proof -
  obtain ovs ts where o: "pkids q = ovs @ K @ ts" "list_all fx_overlay ovs"
      "list_all (\<lambda>n. n = stamp_node i y \<or> n = crease_node) ts"
    using S by (rule fx_shapeE)
  have "fx_overlay (Elem ''i'' [''fx'', c] [] [])" using c by (auto simp: fx_overlay_def)
  then have "fx_shape K i y (Elem ''i'' [''fx'', c] [] [] # pkids q)"
    using o by (intro fx_shapeI [of _ "Elem ''i'' [''fx'', c] [] [] # ovs" _ ts]) simp_all
  with S show ?thesis by (simp add: ensureOverlay_def)
qed

lemma fx_shape_ensureStamp:
  assumes S: "fx_shape K i y (pkids q)"
  shows "fx_shape K i y (pkids (ensureStamp q i y))"
proof -
  obtain ovs ts where o: "pkids q = ovs @ K @ ts" "list_all fx_overlay ovs"
      "list_all (\<lambda>n. n = stamp_node i y \<or> n = crease_node) ts"
    using S by (rule fx_shapeE)
  then have "fx_shape K i y (pkids q @ [stamp_node i y])"
    by (intro fx_shapeI [of _ ovs _ "ts @ [stamp_node i y]"]) simp_all
  with S show ?thesis by (simp add: ensureStamp_def stamp_node_def)
qed

lemma fx_shape_ensureCrease:
  assumes S: "fx_shape K i y (pkids q)"
  shows "fx_shape K i y (pkids (ensureCrease q))"
proof -
  obtain ovs ts where o: "pkids q = ovs @ K @ ts" "list_all fx_overlay ovs"
      "list_all (\<lambda>n. n = stamp_node i y \<or> n = crease_node) ts"
    using S by (rule fx_shapeE)
  then have "fx_shape K i y (pkids q @ [crease_node])"
    by (intro fx_shapeI [of _ ovs _ "ts @ [crease_node]"]) simp_all
  with S show ?thesis by (simp add: ensureCrease_def crease_node_def)
qed

lemma fx_shape_init: "fx_shape K i y K"
  unfolding fx_shape_def by (rule exI [of _ "[]"], rule exI [of _ "[]"]) simp

lemma in_sset_stl: "shd (stl (stl (stl rs))) \<in> sset rs"
  by (rule stl_sset, rule stl_sset, rule stl_sset, rule shd_sset)

section \<open>The lot stamp\<close>

lemma lot_digit_space: "\<not> lot_digit (CHR '' '')"
  by (simp add: lot_digit_def)

lemma stamp_field: "takeWhile lot_digit (drop 4 (stamp_text i y)) = dec (1000 + i)"
proof -
  have "takeWhile lot_digit (dec (1000 + i) @ CHR '' '' # map char_of [226 :: nat, 128, 162] @ '' '' @ js_string_int y) =
        dec (1000 + i)"
    by (rule takeWhile_digits [OF dec_digits lot_digit_space])
  then show ?thesis by (simp add: stamp_text_def padStart_lot)
qed

text \<open>
  C28: the lot stamp round-trips. The digits after \<open>LOT \<close> in the stamp of the page
  with index \<open>i\<close> are exactly \<open>String(1000 + i)\<close> (the pad to four digits never adds a
  zero, and the number ends at the space before the bullet), and they read back as
  \<open>1000 + i\<close>.
\<close>

theorem lot_of_stamp_text:
  "takeWhile lot_digit (drop 4 (stamp_text i y)) = dec (1000 + i) \<and> lot_of (stamp_text i y) = Some (1000 + i)"
  using stamp_field [of i y] by (simp add: lot_of_def stamp_text_def dec_val_dec)

section \<open>Decoration keeps the page's own children\<close>

lemma ensureOverlay_keeps: "pclasses (ensureOverlay q c) = pclasses q \<and> set (pkids q) \<subseteq> set (pkids (ensureOverlay q c))"
  by (auto simp: ensureOverlay_def)

lemma ensureStamp_keeps: "pclasses (ensureStamp q i y) = pclasses q \<and> set (pkids q) \<subseteq> set (pkids (ensureStamp q i y))"
  by (auto simp: ensureStamp_def)

lemma ensureCrease_keeps: "pclasses (ensureCrease q) = pclasses q \<and> set (pkids q) \<subseteq> set (pkids (ensureCrease q))"
  by (auto simp: ensureCrease_def)

lemma fx_decorate_keeps:
  "pclasses (fst (fx_decorate y i p rs)) = pclasses p \<and> fxApplied (fst (fx_decorate y i p rs)) = Some ''1'' \<and>
   set (strip_fx (pkids p)) \<subseteq> set (pkids (fst (fx_decorate y i p rs)))"
proof -
  let ?P = "\<lambda>q. pclasses q = pclasses p \<and> set (strip_fx (pkids p)) \<subseteq> set (pkids q)"
  have "\<exists>q. ?P q \<and> fst (fx_decorate y i p rs) = q\<lparr>fxApplied := Some ''1''\<rparr>"
  proof (rule fx_decorate_preserve)
    show "?P (p\<lparr>pkids := strip_fx (pkids p)\<rparr>)" by simp
    show "?P (ensureOverlay q c)" if "?P q" for q c using that ensureOverlay_keeps [of q c] by auto
    show "?P (ensureStamp q i y)" if "?P q" for q using that ensureStamp_keeps [of q i y] by auto
    show "?P (ensureCrease q)" if "?P q" for q using that ensureCrease_keeps [of q] by auto
  qed
  then show ?thesis by auto
qed

lemma fx_kept_strip: "set (strip_fx (pkids p)) \<subseteq> set (pkids p') \<Longrightarrow> fx_kept p p'"
  by (auto simp: fx_kept_def dest: strip_fx_keeps)

lemma fx_kept_refl: "fx_kept p p"
  by (simp add: fx_kept_def)

lemma fx_kept_trans: "fx_kept p1 p2 \<Longrightarrow> fx_kept p2 p3 \<Longrightarrow> fx_kept p1 p3"
  by (simp add: fx_kept_def)

lemma fx_pass_upd: "list_all2 fx_upd d (fst (fx_pass y i d rs))"
proof (induction y i d rs rule: fx_pass.induct)
  case (1 y i rs)
  then show ?case by simp
next
  case (2 y i p ps rs)
  show ?case
  proof (cases "fx_selected p \<and> fx_pending p")
    case True
    obtain p' rs1 where D: "fx_decorate y i p rs = (p', rs1)" by (metis surj_pair)
    obtain ps' rs2 where P: "fx_pass y (Suc i) ps rs1 = (ps', rs2)" by (metis surj_pair)
    have "fx_upd p p'" using True fx_decorate_keeps [of y i p rs] D by (simp add: fx_upd_def fx_kept_strip)
    then show ?thesis using True D P "2.IH"(1) [OF True D [symmetric]] by simp
  next
    case False
    obtain ps' rs2 where P: "fx_pass y i ps rs = (ps', rs2)" by (metis surj_pair)
    have "fx_pass y i (p # ps) rs = (p # ps', rs2)"
      unfolding fx_pass.simps(2) if_not_P [OF False] using P by simp
    moreover have "fx_upd p p" unfolding fx_upd_def if_not_P [OF False] ..
    ultimately show ?thesis using P "2.IH"(2) [OF False] by simp
  qed
qed

lemma fx_upd_done: "list_all2 fx_upd d d' \<Longrightarrow> filter (\<lambda>p. fx_selected p \<and> fx_pending p) d' = []"
  by (induction rule: list_all2_induct) (auto simp: fx_upd_def fx_selected_def fx_pending_def split: if_splits)

lemma fx_upd_keeps: "list_all2 fx_upd d d' \<Longrightarrow> fx_keeps d d'"
  unfolding fx_keeps_def by (erule list_all2_mono) (auto simp: fx_upd_def fx_kept_refl split: if_splits)

lemma fx_keeps_refl: "fx_keeps d d"
  unfolding fx_keeps_def by (rule list_all2_refl) (rule fx_kept_refl)

lemma fx_keeps_trans: "fx_keeps d1 d2 \<Longrightarrow> fx_keeps d2 d3 \<Longrightarrow> fx_keeps d1 d3"
  unfolding fx_keeps_def by (rule list_all2_trans [OF fx_kept_trans])

section \<open>The operations on the module's state\<close>

lemma applyToPages_keeps: "fx_keeps d (fst (snd (applyToPages y d rs)))"
  by (simp add: applyToPages_def fx_keeps_refl fx_upd_keeps [OF fx_pass_upd] split: prod.splits)

lemma applyToPages_ok: "fst (applyToPages y d rs) \<longleftrightarrow> filter (\<lambda>p. fx_selected p \<and> fx_pending p) d \<noteq> []"
  by (simp add: applyToPages_def split: prod.splits)

lemma fx_apply_fields [simp]:
  "fx_timers (snd (fx_apply y s)) = fx_timers s" "fx_jq (snd (fx_apply y s)) = fx_jq s"
  "fx_doc (snd (fx_apply y s)) = fst (snd (applyToPages y (fx_doc s) (fx_rng s)))"
  "fst (fx_apply y s) = fst (applyToPages y (fx_doc s) (fx_rng s))"
  by (simp_all add: fx_apply_def split: prod.splits)

lemma waitAndApply_fields:
  "fx_timers (waitAndApply y a s) =
     fx_timers s @ (if \<not> fst (fx_apply y s) \<and> js_lt80 a then [case a of Attempt n \<Rightarrow> Suc n | Listener_Event \<Rightarrow> 0] else [])"
  "fx_jq (waitAndApply y a s) = map_option fx_rebind (fx_jq s)"
  "fx_doc (waitAndApply y a s) = fx_doc (snd (fx_apply y s))"
proof -
  obtain ok s1 where A: "fx_apply y s = (ok, s1)" by (metis surj_pair)
  have f: "fx_timers s1 = fx_timers s" "fx_jq s1 = fx_jq s" using fx_apply_fields(1,2) [of y s] A by simp_all
  show "fx_timers (waitAndApply y a s) =
     fx_timers s @ (if \<not> fst (fx_apply y s) \<and> js_lt80 a then [case a of Attempt n \<Rightarrow> Suc n | Listener_Event \<Rightarrow> 0] else [])"
    by (simp add: waitAndApply_def A f split: option.splits)
  show "fx_jq (waitAndApply y a s) = map_option fx_rebind (fx_jq s)"
    by (simp add: waitAndApply_def A f split: option.splits)
  show "fx_doc (waitAndApply y a s) = fx_doc (snd (fx_apply y s))"
    by (simp add: waitAndApply_def A split: option.splits)
qed

lemma fold_turned:
  "fx_timers (fold (\<lambda>(t, nss, h) s. if t = ''turned'' \<and> h = Fx_Reapply then snd (fx_apply y s) else s) hs s) = fx_timers s \<and>
   fx_jq (fold (\<lambda>(t, nss, h) s. if t = ''turned'' \<and> h = Fx_Reapply then snd (fx_apply y s) else s) hs s) = fx_jq s \<and>
   fx_keeps (fx_doc s) (fx_doc (fold (\<lambda>(t, nss, h) s. if t = ''turned'' \<and> h = Fx_Reapply then snd (fx_apply y s) else s) hs s))"
proof (induction hs arbitrary: s)
  case Nil
  then show ?case by (simp add: fx_keeps_refl)
next
  case (Cons h hs)
  obtain t nss g where h: "h = (t, nss, g)" by (cases h) auto
  let ?s1 = "if t = ''turned'' \<and> g = Fx_Reapply then snd (fx_apply y s) else s"
  have s1: "fx_timers ?s1 = fx_timers s" "fx_jq ?s1 = fx_jq s" "fx_keeps (fx_doc s) (fx_doc ?s1)"
    using applyToPages_keeps by (simp_all add: fx_keeps_refl)
  show ?case using Cons.IH [of ?s1] s1 by (auto simp: h intro: fx_keeps_trans)
qed

lemma fx_turned_fields:
  "fx_timers (fx_turned y s) = fx_timers s" "fx_jq (fx_turned y s) = fx_jq s"
  "fx_keeps (fx_doc s) (fx_doc (fx_turned y s))"
  by (simp_all add: fx_turned_def fx_keeps_refl fold_turned split: option.splits)

lemma fx_keeps_update: "j < length d \<Longrightarrow> fx_kept (d ! j) q \<Longrightarrow> fx_keeps d (d[j := q])"
  by (auto simp: fx_keeps_def list_all2_conv_all_nth nth_list_update fx_kept_refl)

lemma fx_add_fields:
  "fx_timers (fx_add k c s) = fx_timers s" "fx_jq (fx_add k c s) = fx_jq s"
  "fx_keeps (fx_doc s) (fx_doc (fx_add k c s))"
proof -
  let ?d = "fx_doc s"
  let ?all = "filter (\<lambda>j. fx_selected (?d ! j)) [0..<length ?d]"
  have "fx_keeps ?d (?d[j := (ensureOverlay (?d ! j) c)\<lparr>fxApplied := Some ''1''\<rparr>])" if "js_index ?all k = Some j" for j
  proof (rule fx_keeps_update)
    have "j \<in> set ?all"
    proof -
      from that have k: "0 \<le> k" "k < int (length ?all)" and j: "j = ?all ! nat k"
        by (auto simp: js_index_def split: if_splits)
      then have "nat k < length ?all" by linarith
      then show ?thesis unfolding j by (rule nth_mem)
    qed
    then show "j < length ?d" by simp
    show "fx_kept (?d ! j) ((ensureOverlay (?d ! j) c)\<lparr>fxApplied := Some ''1''\<rparr>)"
      using ensureOverlay_keeps [of "?d ! j" c] by (auto simp: fx_kept_def)
  qed
  then show "fx_keeps (fx_doc s) (fx_doc (fx_add k c s))"
    by (simp add: fx_add_def Let_def fx_keeps_refl split: option.splits)
qed (simp_all add: fx_add_def Let_def split: option.splits)

lemma fx_step_keeps_doc: "(\<forall>d. e \<noteq> Fx_Dom d) \<Longrightarrow> fx_keeps (fx_doc s) (fx_doc (fx_step y e s))"
  by (cases e) (simp_all add: waitAndApply_fields applyToPages_keeps fx_turned_fields fx_add_fields fx_keeps_refl)

lemma fx_keeps_child:
  "fx_keeps d d' \<Longrightarrow> j < length d \<Longrightarrow> n \<in> set (pkids (d ! j)) \<Longrightarrow> fx_free [n] \<Longrightarrow>
     j < length d' \<and> n \<in> set (pkids (d' ! j))"
  by (auto simp: fx_keeps_def fx_kept_def list_all2_conv_all_nth)

lemma wl_layer_fx_free: "fx_free [wl_layer ls]"
proof -
  have "\<not> has_desc (\<lambda>n. ''fx'' \<in> set (classes n)) (map wl_sprite ls)"
    by (induction ls) (auto simp: wl_sprite_def)
  then show ?thesis by (simp add: fx_free_def wl_layer_def)
qed

lemma retry_budget_step: "retry_budget (fx_step y e s) + fires e s \<le> retry_budget s"
proof (cases "\<exists>i. e = Fx_Timer i \<and> i < length (fx_timers s)")
  case True
  then obtain i where e: "e = Fx_Timer i" and i: "i < length (fx_timers s)" by blast
  let ?ts = "fx_timers s"
  let ?k = "?ts ! i"
  let ?s' = "s\<lparr>fx_timers := take i ?ts @ drop (Suc i) ?ts\<rparr>"
  have ts: "?ts = take i ?ts @ ?k # drop (Suc i) ?ts" by (rule id_take_nth_drop [OF i])
  have b: "retry_budget s = retry_budget ?s' + Suc (80 - ?k)"
    unfolding retry_budget_def by (subst ts) simp
  have "retry_budget (waitAndApply y (Attempt ?k) ?s') + 1 \<le> retry_budget ?s' + Suc (80 - ?k)"
    by (simp add: retry_budget_def waitAndApply_fields js_lt80_def) arith
  then show ?thesis using b e i by simp
next
  case False
  then have "fires e s = 0 \<and> fx_timers (fx_step y e s) = fx_timers s"
    by (cases e) (auto simp: waitAndApply_fields js_lt80_def fx_turned_fields fx_add_fields)
  then show ?thesis by (simp add: retry_budget_def)
qed

lemma jq_rebind_ok:
  "jq_ok hs \<Longrightarrow> jq_ok (fx_rebind hs) \<and>
     filter (\<lambda>(t, nss, h). h \<noteq> Fx_Reapply) (fx_rebind hs) = filter (\<lambda>(t, nss, h). h \<noteq> Fx_Reapply) hs \<and>
     filter (\<lambda>(t, nss, h). h = Fx_Reapply) (fx_rebind hs) = [(''turned'', [''_fx''], Fx_Reapply)]"
  unfolding fx_rebind_def jq_on_def jq_off_def jq_ok_def
  by (induction hs) (auto split: if_splits)

lemma jq_wl_ok:
  "jq_ok hs \<Longrightarrow> jq_ok (wl_bind_jq hs) \<and>
     filter (\<lambda>(t, nss, h). h \<noteq> Fx_Reapply) (wl_bind_jq hs) =
       filter (\<lambda>(t, nss, h). h \<noteq> Fx_Reapply) hs @ [(''turning'', [], Wl_Turning), (''turned'', [], Wl_Turned)] \<and>
     filter (\<lambda>(t, nss, h). h = Fx_Reapply) (wl_bind_jq hs) = filter (\<lambda>(t, nss, h). h = Fx_Reapply) hs"
  by (simp add: wl_bind_jq_def jq_on_def jq_ok_def)

lemma jq_run_split:
  "jq_ok hs \<Longrightarrow>
     filter (\<lambda>(t, nss, h). h \<noteq> Fx_Reapply) (jq_run ops hs) =
       filter (\<lambda>(t, nss, h). h \<noteq> Fx_Reapply) hs @
       concat (map (\<lambda>op. if op = Wl_Bind then [(''turning'', [], Wl_Turning), (''turned'', [], Wl_Turned)] else []) ops) \<and>
     filter (\<lambda>(t, nss, h). h = Fx_Reapply) (jq_run ops hs) =
       (if Fx_Bind \<in> set ops then [(''turned'', [''_fx''], Fx_Reapply)] else filter (\<lambda>(t, nss, h). h = Fx_Reapply) hs)"
proof (induction ops arbitrary: hs)
  case Nil
  then show ?case by simp
next
  case (Cons op ops)
  show ?case
  proof (cases op)
    case Wl_Bind
    then show ?thesis using Cons.IH [of "wl_bind_jq hs"] jq_wl_ok [OF Cons.prems] by auto
  next
    case Fx_Bind
    then show ?thesis using Cons.IH [of "fx_rebind hs"] jq_rebind_ok [OF Cons.prems] by auto
  qed
qed

lemma length_selected: "length (filter (\<lambda>j. P (d ! j)) [0..<length d]) = length (filter P d)"
proof -
  have "filter P d = filter P (map (nth d) [0..<length d])" by (simp add: map_nth)
  also have "\<dots> = map (nth d) (filter (P \<circ> nth d) [0..<length d])" by (rule filter_map)
  finally show ?thesis by (simp add: comp_def)
qed

section \<open>Properties of the module\<close>

text \<open>
  C22: the retry of \<open>waitAndApply\<close> never happens. The listeners pass their \<open>Event\<close> as
  \<open>attempts\<close>, \<open>Event < 80\<close> is false, so no retry timer is ever scheduled: in every
  reachable state there is none, even when the first attempt found no page.
\<close>

theorem fx_no_retry: "fx_reach s \<Longrightarrow> fx_timers s = []"
proof (induction rule: fx_reach.induct)
  case (init d jq rs)
  then show ?case by (simp add: fx_init_def)
next
  case (step s y e)
  then show ?case
    by (cases e) (simp_all add: waitAndApply_fields js_lt80_def fx_turned_fields fx_add_fields)
qed

theorem fx_no_retry_witness:
  "fx_reach (fx_step 2025 Fx_DOMContentLoaded (fx_init [] None (sconst 0))) \<and>
   \<not> fst (applyToPages 2025 [] (sconst 0)) \<and>
   fx_timers (fx_step 2025 Fx_DOMContentLoaded (fx_init [] None (sconst 0))) = []"
proof -
  have r: "fx_reach (fx_step 2025 Fx_DOMContentLoaded (fx_init [] None (sconst 0)))"
    by (rule fx_reach.step [OF fx_reach.init])
  show ?thesis using r fx_no_retry [OF r] by (simp add: applyToPages_def)
qed

text \<open>
  C23: the retry chain terminates. Along any run of the host, the number of retry timers
  that fire is at most the retry budget of the starting state: a timer for attempt \<open>n\<close>
  reschedules only attempt \<open>n + 1 \<le> 80\<close>.
\<close>

theorem retry_terminates: "fx_firings y es s \<le> retry_budget s"
proof (induction es arbitrary: s)
  case Nil
  then show ?case by simp
next
  case (Cons e es)
  have "fx_firings y es (fx_step y e s) \<le> retry_budget (fx_step y e s)" by (rule Cons.IH)
  then show ?case using retry_budget_step [of y e s] by simp
qed

text \<open>
  C24: the decoration of a page is well typed. With draws in \<open>[0, 1)\<close>, the children of a
  decorated page are overlays of the module's five classes, then the page's children less
  their old overlays, in order, then the page's stamp and crease.
\<close>

theorem fx_decorate_typed:
  assumes "valid_draws rs"
  shows "fx_shape (strip_fx (pkids p)) i y (pkids (fst (fx_decorate y i p rs)))"
proof -
  let ?P = "\<lambda>q. fx_shape (strip_fx (pkids p)) i y (pkids q)"
  have lv: "light_variant (shd (stl (stl (stl rs)))) \<in> set LIGHT_VARIANTS"
    using assms in_sset_stl [of rs] by (intro light_variant_range) (auto simp: valid_draws_def)
  have "\<exists>q. ?P q \<and> fst (fx_decorate y i p rs) = q\<lparr>fxApplied := Some ''1''\<rparr>"
  proof (rule fx_decorate_preserve)
    show "?P (p\<lparr>pkids := strip_fx (pkids p)\<rparr>)" by (simp add: fx_shape_init)
    show "?P (ensureOverlay q c)"
      if "?P q" "c = ''fx--edge'' \<or> c = ''fx--grit'' \<or> c = light_variant (shd (stl (stl (stl rs))))" for q c
      using that lv by (intro fx_shape_ensureOverlay) (auto simp: FX_CLASSES_def)
    show "?P (ensureStamp q i y)" if "?P q" for q using that by (rule fx_shape_ensureStamp)
    show "?P (ensureCrease q)" if "?P q" for q using that by (rule fx_shape_ensureCrease)
  qed
  then show ?thesis by auto
qed

theorem fx_decorate_typed_witness:
  "valid_draws (sconst (1 / 4)) \<and>
   fx_shape [wl_layer [False]] 0 2025
     (pkids (fst (fx_decorate 2025 0 \<lparr>pclasses = [''page''], fxApplied = None,
        pkids = [Elem ''i'' [''fx'', ''fx--grit''] [] [], wl_layer [False]]\<rparr> (sconst (1 / 4)))))"
proof -
  have v: "valid_draws (sconst (1 / 4 :: real))" by (rule valid_draws_sconst) simp_all
  have "strip_fx [Elem ''i'' [''fx'', ''fx--grit''] [] [], wl_layer [False]] = [wl_layer [False]]"
    by (simp add: wl_layer_def wl_sprite_def)
  then show ?thesis
    using v fx_decorate_typed [OF v, of "\<lparr>pclasses = [''page''], fxApplied = None,
        pkids = [Elem ''i'' [''fx'', ''fx--grit''] [] [], wl_layer [False]]\<rparr>" 0 2025] by simp
qed

text \<open>
  C25: the two scripts do not conflict on a page. No operation of the overlay module
  (listeners, timers, \<open>turned\<close>, \<open>PageFX.add\<close>, \<open>PageFX.reapply\<close>) removes the woodlouse
  layer of a page or any of its sprites, alive or despawning; only a rebuild of the
  flipbook's elements by another script can.
\<close>

theorem wl_layer_survives:
  assumes "j < length (fx_doc s)" and "wl_layer ls \<in> set (pkids (fx_doc s ! j))" and "\<forall>d. e \<noteq> Fx_Dom d"
  shows "j < length (fx_doc (fx_step y e s)) \<and> wl_layer ls \<in> set (pkids (fx_doc (fx_step y e s) ! j))"
  using fx_keeps_child [OF fx_step_keeps_doc [OF assms(3)] assms(1,2) wl_layer_fx_free] .

theorem wl_layer_survives_witness:
  "wl_layer [False, True] \<in> set (pkids (fx_doc (fx_step 2025 Fx_Turned
      (fx_init [\<lparr>pclasses = [''page''], fxApplied = None, pkids = [wl_layer [False, True]]\<rparr>]
               (Some [(''turned'', [''_fx''], Fx_Reapply)]) (sconst (1 / 4)))) ! 0))"
  using wl_layer_survives [of 0 "fx_init [\<lparr>pclasses = [''page''], fxApplied = None, pkids = [wl_layer [False, True]]\<rparr>]
      (Some [(''turned'', [''_fx''], Fx_Reapply)]) (sconst (1 / 4))" "[False, True]" Fx_Turned 2025]
  by (simp add: fx_init_def)

text \<open>
  C26: the two scripts' \<open>turned\<close> bindings compose. After any interleaving of woodlouse's
  \<open>bindFlipbookEvents\<close> and this module's \<open>waitAndApply\<close> on the flipbook, woodlouse's
  handlers are exactly one pair per binding, in order (the module's \<open>.off\<close> never removes
  them), and the module's handler is bound at most once.
\<close>

theorem jq_bindings_compose:
  "filter (\<lambda>(t, nss, h). h \<noteq> Fx_Reapply) (jq_run ops []) =
     concat (map (\<lambda>op. if op = Wl_Bind then [(''turning'', [], Wl_Turning), (''turned'', [], Wl_Turned)] else []) ops) \<and>
   filter (\<lambda>(t, nss, h). h = Fx_Reapply) (jq_run ops []) =
     (if Fx_Bind \<in> set ops then [(''turned'', [''_fx''], Fx_Reapply)] else [])"
  using jq_run_split [of "[]" ops] by (simp add: jq_ok_def)

text \<open>
  C27: \<open>applyToPages\<close> is idempotent. Right after a call, a second call finds no pending
  page, returns \<open>false\<close> and changes nothing, whatever the draws.
\<close>

theorem applyToPages_idempotent:
  "applyToPages y (fst (snd (applyToPages y d rs))) rs' = (False, fst (snd (applyToPages y d rs)), rs')"
proof (cases "filter (\<lambda>p. fx_selected p \<and> fx_pending p) d = []")
  case True
  then show ?thesis by (simp add: applyToPages_def)
next
  case False
  have "filter (\<lambda>p. fx_selected p \<and> fx_pending p) (fst (fx_pass y 0 d rs)) = []"
    by (rule fx_upd_done [OF fx_pass_upd])
  with False show ?thesis by (simp add: applyToPages_def split: prod.splits)
qed

text \<open>
  C29: \<open>PageFX.add(pageIndex, className)\<close> with an index that names no selected page does
  nothing. The index counts only the selected elements, not the flipbook's children.
\<close>

theorem fx_add_out_of_range:
  "\<not> (0 \<le> k \<and> k < int (length (filter fx_selected (fx_doc s)))) \<Longrightarrow> fx_add k c s = s"
proof -
  assume h: "\<not> (0 \<le> k \<and> k < int (length (filter fx_selected (fx_doc s))))"
  have "js_index (filter (\<lambda>j. fx_selected (fx_doc s ! j)) [0..<length (fx_doc s)]) k = None"
    using h length_selected [of fx_selected "fx_doc s"] by (auto simp: js_index_def)
  then show ?thesis by (simp add: fx_add_def Let_def)
qed

theorem fx_add_out_of_range_witness:
  "\<not> (0 \<le> (2 :: int) \<and> 2 < int (length (filter fx_selected [fx_demo_page, fx_demo_page,
        \<lparr>pclasses = [''page'', ''hard''], fxApplied = None, pkids = []\<rparr>]))) \<and>
   fx_add 2 ''fx--oily'' (fx_init [fx_demo_page, fx_demo_page,
        \<lparr>pclasses = [''page'', ''hard''], fxApplied = None, pkids = []\<rparr>] None (sconst 0)) =
   fx_init [fx_demo_page, fx_demo_page, \<lparr>pclasses = [''page'', ''hard''], fxApplied = None, pkids = []\<rparr>] None (sconst 0)"
  using fx_add_out_of_range [of 2 "fx_init [fx_demo_page, fx_demo_page,
        \<lparr>pclasses = [''page'', ''hard''], fxApplied = None, pkids = []\<rparr>] None (sconst 0)" "''fx--oily''"]
  by (simp add: fx_init_def fx_selected_def)

lemma has_desc_mem: "n \<in> set ns \<Longrightarrow> P n \<Longrightarrow> has_desc P ns"
  by (induction P ns rule: has_desc.induct) auto

lemma has_desc_strip:
  "has_desc (\<lambda>n. c \<in> set (classes n)) (strip_fx ns) \<Longrightarrow> has_desc (\<lambda>n. c \<in> set (classes n)) ns"
  by (induction ns rule: strip_fx.induct) (auto split: if_splits)

lemma stamp_text_inj: "stamp_text k y = stamp_text i y \<Longrightarrow> k = i"
proof -
  assume e: "stamp_text k y = stamp_text i y"
  have "dec (1000 + k) = takeWhile lot_digit (drop 4 (stamp_text k y))" by (rule stamp_field [symmetric])
  also have "\<dots> = takeWhile lot_digit (drop 4 (stamp_text i y))" by (simp only: e)
  also have "\<dots> = dec (1000 + i)" by (rule stamp_field)
  finally have "dec_val (dec (1000 + k)) = dec_val (dec (1000 + i))" by (simp only:)
  then show "k = i" by (simp only: dec_val_dec add_left_cancel)
qed

lemma fx_decorate_stamp:
  assumes ns: "\<not> has_desc (\<lambda>n. ''page-stamp'' \<in> set (classes n)) (pkids p)"
    and k: "stamp_node k y \<in> set (pkids (fst (fx_decorate y i p rs)))"
  shows "k = i"
proof -
  let ?P = "\<lambda>q. \<forall>k. stamp_node k y \<in> set (pkids q) \<longrightarrow> k = i"
  have "\<exists>q. ?P q \<and> fst (fx_decorate y i p rs) = q\<lparr>fxApplied := Some ''1''\<rparr>"
  proof (rule fx_decorate_preserve)
    show "?P (p\<lparr>pkids := strip_fx (pkids p)\<rparr>)"
    proof (intro allI impI)
      fix k assume "stamp_node k y \<in> set (pkids (p\<lparr>pkids := strip_fx (pkids p)\<rparr>))"
      then have "has_desc (\<lambda>n. ''page-stamp'' \<in> set (classes n)) (strip_fx (pkids p))"
        by (intro has_desc_mem [of "stamp_node k y"]) (simp_all add: stamp_node_def)
      with ns show "k = i" using has_desc_strip by blast
    qed
    show "?P (ensureOverlay q c)" if "?P q" for q c
      using that by (auto simp: ensureOverlay_def stamp_node_def)
    show "?P (ensureStamp q i y)" if "?P q" for q
      using that by (auto simp: ensureStamp_def stamp_node_def dest: stamp_text_inj)
    show "?P (ensureCrease q)" if "?P q" for q
      using that by (auto simp: ensureCrease_def stamp_node_def)
  qed
  with k show ?thesis by auto
qed

lemma fx_pass_stamp:
  "j < length d \<Longrightarrow> \<not> has_desc (\<lambda>n. ''page-stamp'' \<in> set (classes n)) (pkids (d ! j)) \<Longrightarrow>
   stamp_node k y \<in> set (pkids (fst (fx_pass y i d rs) ! j)) \<Longrightarrow>
   k = i + length (filter (\<lambda>p. fx_selected p \<and> fx_pending p) (take j d))"
proof (induction y i d rs arbitrary: j rule: fx_pass.induct)
  case (1 y i rs)
  then show ?case by simp
next
  case (2 y i p ps rs)
  show ?case
  proof (cases "fx_selected p \<and> fx_pending p")
    case True
    obtain p' rs1 where D: "fx_decorate y i p rs = (p', rs1)" by (metis surj_pair)
    obtain ps' rs2 where P: "fx_pass y (Suc i) ps rs1 = (ps', rs2)" by (metis surj_pair)
    have e: "fst (fx_pass y i (p # ps) rs) = p' # ps'" using True D P by simp
    show ?thesis
    proof (cases j)
      case 0
      then show ?thesis using "2.prems" e D fx_decorate_stamp [of p k y i rs] by simp
    next
      case (Suc j')
      have "k = Suc i + length (filter (\<lambda>p. fx_selected p \<and> fx_pending p) (take j' ps))"
        using "2.IH"(1) [OF True D [symmetric], where j = j'] "2.prems" e P Suc by simp
      then show ?thesis using True Suc by simp
    qed
  next
    case False
    obtain ps' rs2 where P: "fx_pass y i ps rs = (ps', rs2)" by (metis surj_pair)
    have e: "fst (fx_pass y i (p # ps) rs) = p # ps'"
      unfolding fx_pass.simps(2) if_not_P [OF False] using P by simp
    show ?thesis
    proof (cases j)
      case 0
      then have "has_desc (\<lambda>n. ''page-stamp'' \<in> set (classes n)) (pkids p)"
        using "2.prems"(3) e by (intro has_desc_mem [of "stamp_node k y"]) (simp_all add: stamp_node_def)
      with "2.prems"(2) 0 show ?thesis by simp
    next
      case (Suc j')
      have "k = i + length (filter (\<lambda>p. fx_selected p \<and> fx_pending p) (take j' ps))"
        using "2.IH"(2) [OF False, where j = j'] "2.prems" e P Suc by simp
      then show ?thesis using False Suc by simp
    qed
  qed
qed

text \<open>
  C30: the lot number of a stamp is the page's rank among the pages of the same pass, not
  its place in the book. A page without a stamp that gets one from \<open>applyToPages\<close> is
  stamped with the number of selected pending pages before it, so a page added after an
  earlier pass (a page built later by Turn.js, decorated on the next \<open>turned\<close>) gets
  \<open>LOT 1000\<close> again.
\<close>

theorem lot_is_pass_rank:
  assumes "j < length d" and "\<not> has_desc (\<lambda>n. ''page-stamp'' \<in> set (classes n)) (pkids (d ! j))"
    and "stamp_node k y \<in> set (pkids (fst (snd (applyToPages y d rs)) ! j))"
  shows "k = length (filter (\<lambda>p. fx_selected p \<and> fx_pending p) (take j d))"
proof (cases "filter (\<lambda>p. fx_selected p \<and> fx_pending p) d = []")
  case True
  then have "has_desc (\<lambda>n. ''page-stamp'' \<in> set (classes n)) (pkids (d ! j))"
    using assms(3) by (intro has_desc_mem [of "stamp_node k y"]) (simp_all add: applyToPages_def stamp_node_def)
  with assms(2) show ?thesis by simp
next
  case False
  then show ?thesis using fx_pass_stamp [OF assms(1,2), of k y 0 rs] assms(3)
    by (simp add: applyToPages_def split: prod.splits)
qed

theorem lot_is_pass_rank_witness:
  "let d = fx_doc fx_demo_first @ [fx_demo_page]
   in 1 < length d \<and> \<not> has_desc (\<lambda>n. ''page-stamp'' \<in> set (classes n)) (pkids (d ! 1)) \<and>
      stamp_node 0 2025 \<in> set (pkids (fst (snd (applyToPages 2025 d (sconst 0))) ! 1)) \<and>
      stamp_node 0 2025 \<in> set (pkids (d ! 0)) \<and>
      (0 :: nat) = length (filter (\<lambda>p. fx_selected p \<and> fx_pending p) (take 1 d))"
proof -
  let ?d = "fx_doc fx_demo_first @ [fx_demo_page]"
  have h: "1 < length ?d" "\<not> has_desc (\<lambda>n. ''page-stamp'' \<in> set (classes n)) (pkids (?d ! 1))"
    "stamp_node 0 2025 \<in> set (pkids (fst (snd (applyToPages 2025 ?d (sconst 0))) ! 1))"
    "stamp_node 0 2025 \<in> set (pkids (?d ! 0))"
    by (simp_all add: fx_apply_def applyToPages_def fx_init_def fx_decorate_def js_random_def Let_def
      fx_selected_def fx_pending_def ensureOverlay_def ensureStamp_def ensureCrease_def
      light_variant_def LIGHT_VARIANTS_def stamp_node_def)
  show ?thesis using h lot_is_pass_rank [OF h(1,2,3)] by (simp only: Let_def) simp
qed

end
